theory Spec2Isabelle
  imports Main
begin

section \<open>Imposter: the session engine of \<open>bot.py\<close>\<close>

text \<open>
  The bot keeps one \<open>GameState\<close> object per (guild, channel) in the dictionary \<open>GAMES\<close>.
  Every handler mutates that object inside \<open>async with state.lock\<close>; between two
  \<open>await\<close> points a handler runs alone (asyncio is cooperative), so each critical
  section is one atomic step on the state. A handler is modelled as a function from
  the state and its arguments to the reply it sends and the state it leaves behind.
  The background tasks (\<open>game_loop\<close>, the prompt of \<open>cmd_startgame\<close>) suspend at
  \<open>await\<close>; what other handlers do meanwhile is an explicit input of the model.

  Not modelled: the Discord objects (embeds, views, members), the Flask thread, the
  \<open>asyncio.Task\<close> handles \<open>vote_task\<close> and \<open>game_task\<close>, the lock object itself, and
  the guard \<open>Server channel only\<close> every handler starts with.
\<close>

subsection \<open>Configuration\<close>

definition MIN_PLAYERS :: nat where
  "MIN_PLAYERS = 3"

definition MAX_CLUE_LEN :: nat where
  "MAX_CLUE_LEN = 80"

definition ROUNDS_BEFORE_FINAL_VOTE :: int where
  "ROUNDS_BEFORE_FINAL_VOTE = 3"

definition ALLOW_2_IMPOSTERS_AT :: nat where
  "ALLOW_2_IMPOSTERS_AT = 7"

subsection \<open>Python values\<close>

text \<open>
  A Python \<open>dict\<close> keeps its keys in insertion order, so it is an association list:
  \<open>d[k] = v\<close> overwrites in place or appends, \<open>del d[k]\<close> and \<open>d.pop(k, None)\<close>
  drop the entry, \<open>k in d\<close> looks at the keys.
\<close>

type_synonym ('k, 'v) dict = "('k \<times> 'v) list"

definition dict_keys :: "('k, 'v) dict \<Rightarrow> 'k list" where
  "dict_keys d = map fst d"

definition dict_in :: "'k \<Rightarrow> ('k, 'v) dict \<Rightarrow> bool" where
  "dict_in k d = (k \<in> set (dict_keys d))"

definition dict_get :: "('k, 'v) dict \<Rightarrow> 'k \<Rightarrow> 'v option" where
  "dict_get d k = map_of d k"

primrec dict_set :: "'k \<Rightarrow> 'v \<Rightarrow> ('k, 'v) dict \<Rightarrow> ('k, 'v) dict" where
  "dict_set k v [] = [(k, v)]"
| "dict_set k v (p # ps) = (if fst p = k then (k, v) # ps else p # dict_set k v ps)"

definition dict_pop :: "'k \<Rightarrow> ('k, 'v) dict \<Rightarrow> ('k, 'v) dict" where
  "dict_pop k d = filter (\<lambda>p. fst p \<noteq> k) d"

text \<open>
  A string is a list of characters, a character a code point below 256. The white
  space \<open>str.strip\<close> removes in that range is tab to carriage return, the four
  separators U+001C to U+001F, blank, U+0085 and U+00A0. \<open>str.upper\<close> is modelled on
  the ASCII letters.
\<close>

definition is_space :: "char \<Rightarrow> bool" where
  "is_space c =
     (c \<in> set [CHR 0x09, CHR 0x0A, CHR 0x0B, CHR 0x0C, CHR 0x0D, CHR 0x1C, CHR 0x1D, CHR 0x1E,
               CHR 0x1F, CHR '' '', CHR 0x85, CHR 0xA0])"

definition py_strip :: "string \<Rightarrow> string" where
  "py_strip s = rev (dropWhile is_space (rev (dropWhile is_space s)))"

definition upper_char :: "char \<Rightarrow> char" where
  "upper_char c =
     (case map_of (zip ''abcdefghijklmnopqrstuvwxyz'' ''ABCDEFGHIJKLMNOPQRSTUVWXYZ'') c of
        None \<Rightarrow> c
      | Some u \<Rightarrow> u)"

definition py_upper :: "string \<Rightarrow> string" where
  "py_upper s = map upper_char s"

datatype py_error = ValueError | IndexError

text \<open>
  \<open>str.isdigit\<close> holds of a non-empty string of digits. In this range the digits are
  the decimal digits 0 to 9 and the superscripts two, three and one (U+00B2, U+00B3,
  U+00B9). \<open>int\<close> reads decimal digits only: on a string that passed \<open>isdigit\<close> it
  returns the number when every character is a decimal digit and raises \<open>ValueError\<close>
  otherwise. (\<open>py_int\<close> is \<open>int\<close> on such strings; it is applied to nothing else.)
\<close>

definition is_decimal :: "char \<Rightarrow> bool" where
  "is_decimal c = (c \<in> set ''0123456789'')"

definition is_digit_char :: "char \<Rightarrow> bool" where
  "is_digit_char c = (is_decimal c \<or> c \<in> set [CHR 0xB2, CHR 0xB3, CHR 0xB9])"

definition py_isdigit :: "string \<Rightarrow> bool" where
  "py_isdigit s = (s \<noteq> [] \<and> list_all is_digit_char s)"

definition digit_value :: "char \<Rightarrow> nat" where
  "digit_value c =
     (case map_of (zip ''0123456789'' [0, 1, 2, 3, 4, 5, 6, 7, 8, 9]) c of
        None \<Rightarrow> 0
      | Some d \<Rightarrow> d)"

definition py_int :: "string \<Rightarrow> py_error + nat" where
  "py_int s =
     (if s \<noteq> [] \<and> list_all is_decimal s
      then Inr (foldl (\<lambda>n c. 10 * n + digit_value c) 0 s)
      else Inl ValueError)"

text \<open>
  \<open>random.choice\<close> and \<open>random.sample\<close> read a random source: here the draws are an
  input, one natural number per draw, reduced modulo the size of what is drawn from.
  Every outcome of the library call is the outcome of some draws. \<open>random.choice\<close>
  raises \<open>IndexError\<close> on an empty sequence, \<open>random.sample\<close> raises \<open>ValueError\<close>
  when the sample is larger than the population.
\<close>

definition random_choice :: "nat \<Rightarrow> 'a list \<Rightarrow> py_error + 'a" where
  "random_choice r xs = (if xs = [] then Inl IndexError else Inr (xs ! (r mod length xs)))"

fun draw_distinct :: "nat list \<Rightarrow> 'a list \<Rightarrow> nat \<Rightarrow> 'a list" where
  "draw_distinct rs pool 0 = []"
| "draw_distinct rs [] (Suc k) = []"
| "draw_distinct rs (p # ps) (Suc k) =
     (let i = (case rs of [] \<Rightarrow> 0 | r # _ \<Rightarrow> r) mod length (p # ps)
      in ((p # ps) ! i) # draw_distinct (tl rs) (take i (p # ps) @ drop (Suc i) (p # ps)) k)"

definition random_sample :: "nat list \<Rightarrow> 'a list \<Rightarrow> nat \<Rightarrow> py_error + 'a list" where
  "random_sample rs population k =
     (if length population < k then Inl ValueError else Inr (draw_distinct rs population k))"

subsection \<open>Words\<close>

text \<open>
  \<open>load_words\<close>: the lines of \<open>words.txt\<close> (\<open>None\<close> when the file does not exist),
  stripped, without blank lines, comments and entries holding a blank, upper-cased;
  the built-in list when nothing is left; duplicates dropped, first occurrence kept.
\<close>

definition fallback_words :: "string list" where
  "fallback_words =
     [''PIZZA'', ''AIRPLANE'', ''VOLCANO'', ''BICYCLE'', ''CHOCOLATE'', ''PYRAMID'', ''ROBOT'',
      ''CASTLE'']"

definition keep_word :: "string \<Rightarrow> bool" where
  "keep_word w = (if w = [] \<or> hd w = CHR ''#'' then False else CHR '' '' \<notin> set w)"

fun dedup :: "string list \<Rightarrow> string list \<Rightarrow> string list" where
  "dedup seen [] = []"
| "dedup seen (w # ws) = (if w \<in> set seen then dedup seen ws else w # dedup (w # seen) ws)"

definition load_words :: "string list option \<Rightarrow> string list" where
  "load_words file =
     (let read = (case file of None \<Rightarrow> []
                  | Some lines \<Rightarrow> map py_upper (filter keep_word (map py_strip lines)));
          words = (if read = [] then fallback_words else read)
      in dedup [] words)"

subsection \<open>State\<close>

record Player =
  user_id :: int
  alive :: bool

record GameState =
  guild_id :: int
  channel_id :: int
  host_id :: int
  started :: bool
  players :: "(int, Player) dict"
  join_order :: "int list"
  secret_word :: "string option"
  imposters :: "int set"
  lobby_message_id :: "int option"
  round_no :: int
  current_turn_index :: int
  current_round_clues :: "(int, string) dict"
  history :: "(int \<times> (int, string) dict) list"
  expecting_clue_from :: "int option"
  voting_open :: bool
  votes :: "(int, int) dict"

text \<open>\<open>GameState(guild_id, channel_id, host_id)\<close> with the defaults of the dataclass.\<close>

definition new_GameState :: "int \<Rightarrow> int \<Rightarrow> int \<Rightarrow> GameState" where
  "new_GameState g c h =
     \<lparr>guild_id = g, channel_id = c, host_id = h, started = False, players = [],
      join_order = [], secret_word = None, imposters = {}, lobby_message_id = None,
      round_no = 0, current_turn_index = 0, current_round_clues = [], history = [],
      expecting_clue_from = None, voting_open = False, votes = []\<rparr>"

definition is_host :: "GameState \<Rightarrow> int \<Rightarrow> bool" where
  "is_host s uid = (uid = host_id s)"

definition alive_players :: "GameState \<Rightarrow> int list" where
  "alive_players s =
     filter (\<lambda>uid. case dict_get (players s) uid of None \<Rightarrow> False | Some p \<Rightarrow> alive p)
       (join_order s)"

definition imposter_options :: "nat \<Rightarrow> nat list" where
  "imposter_options n = (if ALLOW_2_IMPOSTERS_AT \<le> n then [1, 2] else [1])"

subsection \<open>Replies\<close>

text \<open>
  The rejections, by the message the handler sends:
  \<open>NoLobby\<close> (No lobby here), \<open>AlreadyStarted\<close> (Game already started / Already
  started), \<open>AlreadyJoined\<close> (You're already in the lobby), \<open>LeaveMidGame\<close> (Can't
  leave mid-game), \<open>NotInLobby\<close> (You're not in this lobby), \<open>NoActiveGame\<close> (No
  active game here), \<open>VotingOpen\<close> (Voting is open, no clues right now),
  \<open>NotInGame\<close> (You're not in this game), \<open>NotYourTurn\<close>, \<open>AlreadySubmitted\<close> (You
  already submitted this round), \<open>EmptyClue\<close> (Clue can't be empty), \<open>ExactWordClue\<close>
  (Don't type the exact secret word), \<open>VotingClosed\<close> (Voting is closed),
  \<open>NotAPlayer\<close> (Only players can vote), \<open>SelfVote\<close> (You can't vote yourself),
  \<open>UnknownTarget\<close> (That player isn't in this game), \<open>NotHost\<close> (Host only),
  \<open>NotEnoughPlayers\<close> (Not enough players).
\<close>

datatype error =
    NoLobby | AlreadyStarted | AlreadyJoined | LeaveMidGame | NotInLobby | NoActiveGame
  | VotingOpen | NotInGame | NotYourTurn | AlreadySubmitted | EmptyClue | ExactWordClue
  | VotingClosed | NotAPlayer | SelfVote | UnknownTarget | NotHost | NotEnoughPlayers

datatype response =
    Rejected error
  | Joined
  | Left
  | LobbyClosed
  | ModalSent
  | ClueSubmitted
  | VotedSkip
  | VoteRecorded int
  | VoteCleared
  | LobbyCreated
  | ChooseImposters "nat list"
  | GameStarted
  | Raised py_error

subsection \<open>Lobby: \<open>LobbyView.join\<close>, \<open>LobbyView.leave\<close>, \<open>refresh_lobby_embed\<close>\<close>

text \<open>
  \<open>refresh_lobby_embed\<close> fetches the lobby message; \<open>found\<close> says whether the platform
  still has it. On \<open>discord.NotFound\<close> the stored message id is cleared.
\<close>

definition refresh_lobby_embed :: "GameState \<Rightarrow> bool \<Rightarrow> GameState" where
  "refresh_lobby_embed s found =
     (case lobby_message_id s of
        None \<Rightarrow> s
      | Some m \<Rightarrow> if m = 0 then s else if found then s else s\<lparr>lobby_message_id := None\<rparr>)"

definition LobbyView_join :: "GameState \<Rightarrow> int \<Rightarrow> bool \<Rightarrow> response \<times> GameState" where
  "LobbyView_join s uid found =
     (if started s then (Rejected AlreadyStarted, s)
      else if dict_in uid (players s) then (Rejected AlreadyJoined, s)
      else (Joined,
        refresh_lobby_embed
          (s\<lparr>players := dict_set uid \<lparr>user_id = uid, alive = True\<rparr> (players s),
             join_order := join_order s @ [uid]\<rparr>) found))"

text \<open>
  When the host leaves, the handler pops the session from \<open>GAMES\<close> and returns before
  the roster is touched: the reply is \<open>LobbyClosed\<close> and the registry acts on it.
\<close>

definition LobbyView_leave :: "GameState \<Rightarrow> int \<Rightarrow> bool \<Rightarrow> response \<times> GameState" where
  "LobbyView_leave s uid found =
     (if started s then (Rejected LeaveMidGame, s)
      else if \<not> dict_in uid (players s) then (Rejected NotInLobby, s)
      else if uid = host_id s then (LobbyClosed, s)
      else (Left,
        refresh_lobby_embed
          (s\<lparr>players := dict_pop uid (players s),
             join_order := filter (\<lambda>u. u \<noteq> uid) (join_order s)\<rparr>) found))"

subsection \<open>Clues: \<open>TurnClueView.submit\<close>, \<open>ClueModal.on_submit\<close>\<close>

text \<open>The button: it only decides whether the modal is sent; the state is not written.\<close>

definition TurnClueView_submit :: "GameState \<Rightarrow> int \<Rightarrow> response \<times> GameState" where
  "TurnClueView_submit s uid =
     (if \<not> started s then (Rejected NoActiveGame, s)
      else if voting_open s then (Rejected VotingOpen, s)
      else if \<not> dict_in uid (players s) then (Rejected NotInGame, s)
      else if expecting_clue_from s \<noteq> Some uid then (Rejected NotYourTurn, s)
      else if dict_in uid (current_round_clues s) then (Rejected AlreadySubmitted, s)
      else (ModalSent, s))"

text \<open>\<open>state.secret_word and clue_text.upper() == state.secret_word.upper()\<close>\<close>

definition is_exact_word :: "GameState \<Rightarrow> string \<Rightarrow> bool" where
  "is_exact_word s clue_text =
     (case secret_word s of
        None \<Rightarrow> False
      | Some w \<Rightarrow> if w = [] then False else py_upper clue_text = py_upper w)"

text \<open>The modal: \<open>raw\<close> is the value of the text input.\<close>

definition ClueModal_on_submit :: "GameState \<Rightarrow> int \<Rightarrow> string \<Rightarrow> response \<times> GameState" where
  "ClueModal_on_submit s uid raw =
     (let clue_text = py_strip raw in
      if \<not> started s then (Rejected NoActiveGame, s)
      else if clue_text = [] then (Rejected EmptyClue, s)
      else if voting_open s then (Rejected VotingOpen, s)
      else if expecting_clue_from s \<noteq> Some uid then (Rejected NotYourTurn, s)
      else if is_exact_word s clue_text then (Rejected ExactWordClue, s)
      else (ClueSubmitted,
        s\<lparr>current_round_clues := dict_set uid clue_text (current_round_clues s)\<rparr>))"

subsection \<open>Votes: \<open>VoteView\<close> and \<open>VoteSelect\<close>\<close>

text \<open>\<open>VoteView._record\<close>; the Skip button calls it with target 0.\<close>

definition VoteView_record :: "GameState \<Rightarrow> int \<Rightarrow> int \<Rightarrow> response \<times> GameState" where
  "VoteView_record s uid target_id =
     (if \<not> voting_open s then (Rejected VotingClosed, s)
      else if \<not> dict_in uid (players s) then (Rejected NotAPlayer, s)
      else if target_id \<noteq> 0 \<and> target_id = uid then (Rejected SelfVote, s)
      else if target_id \<noteq> 0 \<and> \<not> dict_in target_id (players s) then (Rejected UnknownTarget, s)
      else (if target_id = 0 then VotedSkip else VoteRecorded target_id,
        s\<lparr>votes := dict_set uid target_id (votes s)\<rparr>))"

definition VoteView_skip :: "GameState \<Rightarrow> int \<Rightarrow> response \<times> GameState" where
  "VoteView_skip s uid = VoteView_record s uid 0"

definition VoteView_clear :: "GameState \<Rightarrow> int \<Rightarrow> response \<times> GameState" where
  "VoteView_clear s uid = (VoteCleared, s\<lparr>votes := dict_pop uid (votes s)\<rparr>)"

text \<open>
  \<open>VoteSelect.callback\<close>: the select menu; \<open>target_id\<close> is \<open>int(self.values[0])\<close>, the
  value the interaction carries.
\<close>

definition VoteSelect_callback :: "GameState \<Rightarrow> int \<Rightarrow> int \<Rightarrow> response \<times> GameState" where
  "VoteSelect_callback s uid target_id =
     (if \<not> voting_open s then (Rejected VotingClosed, s)
      else if \<not> dict_in uid (players s) then (Rejected NotAPlayer, s)
      else if target_id = uid then (Rejected SelfVote, s)
      else (VoteRecorded target_id, s\<lparr>votes := dict_set uid target_id (votes s)\<rparr>))"

subsection \<open>The final vote: \<open>finalize_final_voting\<close>\<close>

text \<open>The counting loop of \<open>finalize_final_voting\<close>, one iteration per entry of \<open>votes\<close>.\<close>

fun count_votes ::
  "(int, Player) dict \<Rightarrow> (int, int) dict \<Rightarrow> (int, nat) dict \<Rightarrow> (int, nat) dict" where
  "count_votes ps [] counts = counts"
| "count_votes ps ((voter, target) # vs) counts =
     (if \<not> dict_in voter ps then count_votes ps vs counts
      else if target \<noteq> 0 \<and> \<not> dict_in target ps then count_votes ps vs counts
      else count_votes ps vs
        (dict_set target ((case dict_get counts target of None \<Rightarrow> 0 | Some c \<Rightarrow> c) + 1) counts))"

definition vote_pool :: "(int, nat) dict \<Rightarrow> (int, nat) dict" where
  "vote_pool counts =
     (let non_skip = filter (\<lambda>(k, v). k \<noteq> 0) counts
      in if non_skip \<noteq> [] then non_skip else counts)"

definition top_guess :: "(int, nat) dict \<Rightarrow> int option" where
  "top_guess counts =
     (if counts = [] then None
      else
        let pool = vote_pool counts;
            max_votes = Max (set (map snd pool));
            top = map fst (filter (\<lambda>(pid, c). c = max_votes) pool)
        in (case top of [t] \<Rightarrow> Some t | _ \<Rightarrow> None))"

record Reveal =
  reveal_word :: string
  reveal_imposters :: "int set"
  reveal_counts :: "(int, nat) dict"
  reveal_top :: "int option"

text \<open>
  \<open>finalize_final_voting\<close> up to the reveal: nothing happens when voting is not open;
  otherwise the votes are counted, voting is closed and the reveal is sent (\<open>word =
  state.secret_word or dash\<close>; the dash is written in ASCII here). The function then
  pops the session from \<open>GAMES\<close>.
\<close>

definition finalize_final_voting :: "GameState \<Rightarrow> Reveal option \<times> GameState" where
  "finalize_final_voting s =
     (if \<not> voting_open s then (None, s)
      else
        let counts = count_votes (players s) (votes s) []
        in (Some \<lparr>reveal_word =
                     (case secret_word s of None \<Rightarrow> ''-'' | Some w \<Rightarrow> if w = [] then ''-'' else w),
                   reveal_imposters = imposters s,
                   reveal_counts = counts,
                   reveal_top = top_guess counts\<rparr>,
            s\<lparr>voting_open := False\<rparr>))"

subsection \<open>What the players do while a task is suspended\<close>

text \<open>
  An event is one interaction of a user with the session: a button, the modal, the
  select menu. \<open>apply_event\<close> is the state the handler leaves behind.
\<close>

datatype event =
    Join int bool
  | Leave int bool
  | ClueButton int
  | ClueModal int string
  | VoteSkip int
  | VoteSelect int int
  | VoteClear int

fun handle :: "GameState \<Rightarrow> event \<Rightarrow> response \<times> GameState" where
  "handle s (Join uid found) = LobbyView_join s uid found"
| "handle s (Leave uid found) = LobbyView_leave s uid found"
| "handle s (ClueButton uid) = TurnClueView_submit s uid"
| "handle s (ClueModal uid raw) = ClueModal_on_submit s uid raw"
| "handle s (VoteSkip uid) = VoteView_skip s uid"
| "handle s (VoteSelect uid target_id) = VoteSelect_callback s uid target_id"
| "handle s (VoteClear uid) = VoteView_clear s uid"

definition apply_event :: "GameState \<Rightarrow> event \<Rightarrow> GameState" where
  "apply_event s ev = snd (handle s ev)"

definition run_events :: "GameState \<Rightarrow> event list \<Rightarrow> GameState" where
  "run_events s evs = foldl apply_event s evs"

text \<open>
  The environment of a task: for each \<open>await\<close> the task reaches, the events handled
  before it resumes (none once the list is used up).
\<close>

type_synonym env = "event list list"

fun await :: "GameState \<Rightarrow> env \<Rightarrow> GameState \<times> env" where
  "await s [] = (s, [])"
| "await s (evs # env) = (run_events s evs, env)"

subsection \<open>The round loop: \<open>wait_for_player_clue\<close>, \<open>game_loop\<close>\<close>

text \<open>The placeholder of a turn that timed out (its ellipsis written as three dots).\<close>

definition timeout_clue :: string where
  "timeout_clue = ''... (timed out)''"

text \<open>
  \<open>wait_for_player_clue\<close> looks for the player's clue, sleeps 0.2 s and looks again
  until the deadline has passed; \<open>polls\<close> is the number of looks that fit in the
  window.
\<close>

fun wait_for_player_clue :: "nat \<Rightarrow> GameState \<Rightarrow> int \<Rightarrow> env \<Rightarrow> bool \<times> GameState \<times> env" where
  "wait_for_player_clue 0 s player_id env = (False, s, env)"
| "wait_for_player_clue (Suc polls) s player_id env =
     (if dict_in player_id (current_round_clues s) then (True, s, env)
      else case await s env of (s', env') \<Rightarrow> wait_for_player_clue polls s' player_id env')"

text \<open>The write after a turn that timed out (\<open>if not success:\<close> in \<open>game_loop\<close>).\<close>

definition record_timeout :: "GameState \<Rightarrow> int \<Rightarrow> GameState" where
  "record_timeout s pid =
     (if \<not> dict_in pid (current_round_clues s)
      then s\<lparr>current_round_clues := dict_set pid timeout_clue (current_round_clues s)\<rparr>
      else s)"

text \<open>
  One turn, from the wait to the write of the placeholder: the state in which the
  turn's clue is settled.
\<close>

definition await_clue :: "nat \<Rightarrow> GameState \<Rightarrow> int \<Rightarrow> env \<Rightarrow> GameState \<times> env" where
  "await_clue polls s pid env =
     (case wait_for_player_clue polls s pid env of
        (success, s', env') \<Rightarrow>
          if success then (s', env') else await (record_timeout s' pid) env')"

text \<open>
  The \<open>for pid in turn_order\<close> loop. The flag says that the loop returned because
  voting was open.
\<close>

fun play_turns :: "nat \<Rightarrow> int list \<Rightarrow> GameState \<Rightarrow> env \<Rightarrow> bool \<times> GameState \<times> env" where
  "play_turns polls [] s env = (False, s, env)"
| "play_turns polls (pid # turn_order) s env =
     (if voting_open s then (True, s, env)
      else
        case await (s\<lparr>expecting_clue_from := Some pid\<rparr>) env of (s1, env1) \<Rightarrow>
        case await_clue polls s1 pid env1 of (s2, env2) \<Rightarrow>
        case await (s2\<lparr>expecting_clue_from := None\<rparr>) env2 of (s3, env3) \<Rightarrow>
          play_turns polls turn_order s3 env3)"

text \<open>One pass of the \<open>while True\<close> body up to the recap.\<close>

definition play_round :: "nat \<Rightarrow> GameState \<Rightarrow> env \<Rightarrow> bool \<times> GameState \<times> env" where
  "play_round polls s env =
     (let s0 = s\<lparr>round_no := round_no s + 1, current_round_clues := [],
                 current_turn_index := 0, expecting_clue_from := None\<rparr>;
          turn_order = alive_players s0
      in case await s0 env of (s1, env1) \<Rightarrow>
         case play_turns polls turn_order s1 env1 of (stop, s2, env2) \<Rightarrow>
           if stop then (True, s2, env2)
           else case await (s2\<lparr>history := history s2 @ [(round_no s2, current_round_clues s2)]\<rparr>) env2
                of (s3, env3) \<Rightarrow> (False, s3, env3))"

text \<open>
  \<open>open_final_voting\<close>: voting is opened and the votes cleared, then the vote message
  is sent.
\<close>

definition open_final_voting :: "GameState \<Rightarrow> env \<Rightarrow> GameState \<times> env" where
  "open_final_voting s env = await (s\<lparr>voting_open := True, votes := []\<rparr>) env"

subsection \<open>\<open>cmd_startgame\<close>\<close>

text \<open>
  The first \<open>!startgame\<close> in a channel creates the lobby: the author is the host and
  the first player, \<open>lobby_msg\<close> is the id of the lobby message that was sent.
\<close>

definition create_lobby :: "int \<Rightarrow> int \<Rightarrow> int \<Rightarrow> int \<Rightarrow> GameState" where
  "create_lobby g c author lobby_msg =
     (new_GameState g c author)
       \<lparr>players := dict_set author \<lparr>user_id = author, alive = True\<rparr> [],
        join_order := [author],
        lobby_message_id := Some lobby_msg\<rparr>"

text \<open>
  On an existing session the command first checks the caller, the phase and the size
  of the roster (the first \<open>async with state.lock\<close>), and computes the options it
  offers.
\<close>

definition start_check :: "GameState \<Rightarrow> int \<Rightarrow> bool \<Rightarrow> response \<times> GameState" where
  "start_check s author found =
     (if \<not> is_host s author then (Rejected NotHost, s)
      else if started s then (Rejected AlreadyStarted, s)
      else if length (players s) < MIN_PLAYERS
        then (Rejected NotEnoughPlayers, refresh_lobby_embed s found)
      else (ChooseImposters (imposter_options (length (players s))), s))"

text \<open>
  The prompt. \<open>msgs\<close> are the messages the bot sees in the 20 s after the prompt, in
  order. \<open>bot.wait_for("message", check=chk, timeout=20)\<close> returns the first that
  passes \<open>chk\<close>: written by the author of the command, in the channel of the command
  (the channel of the session), with a stripped content that \<open>isdigit()\<close>;
  \<open>None\<close> is \<open>asyncio.TimeoutError\<close>.
\<close>

record Message =
  msg_author :: int
  msg_channel :: int
  msg_content :: string

definition chk :: "int \<Rightarrow> int \<Rightarrow> Message \<Rightarrow> bool" where
  "chk author channel m =
     (msg_author m = author \<and> msg_channel m = channel \<and> py_isdigit (py_strip (msg_content m)))"

definition wait_for_message :: "int \<Rightarrow> int \<Rightarrow> Message list \<Rightarrow> Message option" where
  "wait_for_message author channel msgs = find (chk author channel) msgs"

text \<open>
  \<open>imp_count\<close>: \<open>opts[0]\<close> by default (the list of options is never empty), the
  host's choice when it is one of the options. Only the timeout is caught: when
  \<open>int(msg.content.strip())\<close> raises, the command ends there.
\<close>

definition choose_imposter_count :: "nat list \<Rightarrow> Message option \<Rightarrow> py_error + nat" where
  "choose_imposter_count opts reply =
     (case reply of
        None \<Rightarrow> Inr (hd opts)
      | Some msg \<Rightarrow>
          (case py_int (py_strip (msg_content msg)) of
             Inl err \<Rightarrow> Inl err
           | Inr choice \<Rightarrow> Inr (if choice \<in> set opts then choice else hd opts)))"

text \<open>
  The second \<open>async with state.lock\<close>. \<open>words\<close> is the global \<open>WORDS\<close>; \<open>r_word\<close> and
  \<open>r_imps\<close> are the draws of \<open>random.choice\<close> and \<open>random.sample\<close>. An exception
  leaves the fields assigned before it.
\<close>

definition start_commit ::
  "GameState \<Rightarrow> string list \<Rightarrow> nat \<Rightarrow> nat list \<Rightarrow> nat \<Rightarrow> response \<times> GameState" where
  "start_commit s words r_word r_imps imp_count =
     (let s1 = s\<lparr>started := True\<rparr> in
      case random_choice r_word words of
        Inl err \<Rightarrow> (Raised err, s1)
      | Inr w \<Rightarrow>
          (let s2 = s1\<lparr>secret_word := Some w\<rparr>;
               ids = dict_keys (players s2)
           in (case random_sample r_imps ids imp_count of
                 Inl err \<Rightarrow> (Raised err, s2)
               | Inr imps \<Rightarrow>
                   (GameStarted,
                    s2\<lparr>imposters := set imps, round_no := 0, history := [],
                       voting_open := False, votes := [], expecting_clue_from := None\<rparr>))))"

text \<open>
  The command on an existing session. \<open>during\<close> are the events handled while the
  command waits for the host's reply: the lobby is still open then. An exception
  in reading the reply ends the command before the second critical section.
\<close>

definition cmd_startgame ::
  "GameState \<Rightarrow> int \<Rightarrow> bool \<Rightarrow> Message list \<Rightarrow> event list \<Rightarrow> string list \<Rightarrow> nat \<Rightarrow> nat list
     \<Rightarrow> response \<times> GameState" where
  "cmd_startgame s author found msgs during words r_word r_imps =
     (case start_check s author found of
        (ChooseImposters opts, s1) \<Rightarrow>
          (case choose_imposter_count opts (wait_for_message author (channel_id s1) msgs) of
             Inl err \<Rightarrow> (Raised err, run_events s1 during)
           | Inr imp_count \<Rightarrow>
               start_commit (run_events s1 during) words r_word r_imps imp_count)
      | (r, s1) \<Rightarrow> (r, s1))"

subsection \<open>The registry \<open>GAMES\<close>\<close>

type_synonym registry = "int \<times> int \<Rightarrow> GameState option"

text \<open>
  An interaction in a channel: \<open>get_state_from_channel\<close>, then the handler; the host's
  Leave pops the session.
\<close>

definition dispatch :: "int \<times> int \<Rightarrow> registry \<Rightarrow> event \<Rightarrow> registry" where
  "dispatch key games ev =
     (case games key of
        None \<Rightarrow> games
      | Some s \<Rightarrow>
          (case handle s ev of
             (LobbyClosed, s') \<Rightarrow> games(key := None)
           | (r, s') \<Rightarrow> games(key \<mapsto> s')))"

definition lobby_created :: "int \<Rightarrow> int \<Rightarrow> int \<Rightarrow> int \<Rightarrow> registry" where
  "lobby_created g c author lobby_msg = Map.empty((g, c) \<mapsto> create_lobby g c author lobby_msg)"

section \<open>The round loop terminates\<close>

text \<open>
  No interaction writes the round counter, the history, the voting flag or the
  started flag; a round adds one to the counter.
\<close>

lemma refresh_fields:
  "round_no (refresh_lobby_embed s f) = round_no s"
  "voting_open (refresh_lobby_embed s f) = voting_open s"
  "history (refresh_lobby_embed s f) = history s"
  "started (refresh_lobby_embed s f) = started s"
  "players (refresh_lobby_embed s f) = players s"
  "join_order (refresh_lobby_embed s f) = join_order s"
  "host_id (refresh_lobby_embed s f) = host_id s"
  by (simp_all add: refresh_lobby_embed_def split: option.splits)

lemma handle_fields:
  "round_no (snd (handle s ev)) = round_no s"
  "voting_open (snd (handle s ev)) = voting_open s"
  "history (snd (handle s ev)) = history s"
  "started (snd (handle s ev)) = started s"
  by (cases ev; simp add: LobbyView_join_def LobbyView_leave_def TurnClueView_submit_def
      ClueModal_on_submit_def VoteView_skip_def VoteView_record_def VoteSelect_callback_def
      VoteView_clear_def refresh_fields Let_def)+

lemma apply_event_fields:
  "round_no (apply_event s ev) = round_no s"
  "voting_open (apply_event s ev) = voting_open s"
  "history (apply_event s ev) = history s"
  "started (apply_event s ev) = started s"
  by (simp_all add: apply_event_def handle_fields)

lemma run_events_fields:
  "round_no (run_events s evs) = round_no s"
  "voting_open (run_events s evs) = voting_open s"
  "history (run_events s evs) = history s"
  "started (run_events s evs) = started s"
  unfolding run_events_def
  by (induction evs arbitrary: s; simp add: apply_event_fields)+

lemma await_fields:
  "await s env = (s', env') \<Longrightarrow> round_no s' = round_no s"
  "await s env = (s', env') \<Longrightarrow> voting_open s' = voting_open s"
  "await s env = (s', env') \<Longrightarrow> history s' = history s"
  "await s env = (s', env') \<Longrightarrow> started s' = started s"
  by (cases env; auto simp: run_events_fields)+

lemma wait_fields:
  "wait_for_player_clue polls s pid env = (ok, s', env') \<Longrightarrow>
     round_no s' = round_no s \<and> voting_open s' = voting_open s \<and> history s' = history s
     \<and> started s' = started s"
proof (induction polls s pid env rule: wait_for_player_clue.induct)
  case (1 s player_id env)
  then show ?case by simp
next
  case (2 polls s player_id env)
  show ?case
  proof (cases "dict_in player_id (current_round_clues s)")
    case True
    with 2 show ?thesis by simp
  next
    case False
    obtain s1 env1 where a: "await s env = (s1, env1)" by (cases "await s env")
    with 2 False show ?thesis by (simp add: await_fields[OF a])
  qed
qed


lemma record_timeout_fields:
  "round_no (record_timeout s pid) = round_no s"
  "voting_open (record_timeout s pid) = voting_open s"
  "history (record_timeout s pid) = history s"
  "started (record_timeout s pid) = started s"
  by (simp_all add: record_timeout_def)

lemma await_clue_fields:
  assumes "await_clue polls s pid env = (s', env')"
  shows "round_no s' = round_no s \<and> voting_open s' = voting_open s \<and> history s' = history s
     \<and> started s' = started s"
proof -
  obtain ok s1 env1 where w: "wait_for_player_clue polls s pid env = (ok, s1, env1)"
    by (cases "wait_for_player_clue polls s pid env")
  show ?thesis
  proof (cases ok)
    case True
    with assms w wait_fields[OF w] show ?thesis by (simp add: await_clue_def)
  next
    case False
    with assms w have a: "await (record_timeout s1 pid) env1 = (s', env')"
      by (simp add: await_clue_def)
    from await_fields[OF a] wait_fields[OF w] show ?thesis
      by (simp add: record_timeout_fields)
  qed
qed

lemma play_turns_fields:
  "play_turns polls turn_order s env = (stop, s', env') \<Longrightarrow>
     round_no s' = round_no s \<and> voting_open s' = voting_open s \<and> history s' = history s
     \<and> started s' = started s \<and> (stop \<longrightarrow> voting_open s)"
proof (induction turn_order arbitrary: s env)
  case Nil
  then show ?case by simp
next
  case (Cons pid turn_order)
  show ?case
  proof (cases "voting_open s")
    case True
    with Cons.prems show ?thesis by simp
  next
    case False
    obtain s1 env1 where a1: "await (s\<lparr>expecting_clue_from := Some pid\<rparr>) env = (s1, env1)"
      by (cases "await (s\<lparr>expecting_clue_from := Some pid\<rparr>) env")
    obtain s2 env2 where a2: "await_clue polls s1 pid env1 = (s2, env2)"
      by (cases "await_clue polls s1 pid env1")
    obtain s3 env3 where a3: "await (s2\<lparr>expecting_clue_from := None\<rparr>) env2 = (s3, env3)"
      by (cases "await (s2\<lparr>expecting_clue_from := None\<rparr>) env2")
    from Cons.prems False a1 a2 a3
    have rest: "play_turns polls turn_order s3 env3 = (stop, s', env')" by simp
    from await_fields[OF a1] await_clue_fields[OF a2] await_fields[OF a3] Cons.IH[OF rest] False
    show ?thesis by simp
  qed
qed

lemma play_round_fields:
  assumes "play_round polls s env = (stop, s', env')"
  shows "round_no s' = round_no s + 1" and "voting_open s' = voting_open s"
    and "started s' = started s" and "stop \<longrightarrow> voting_open s"
    and "\<not> stop \<Longrightarrow> \<exists>clues. history s' = history s @ [(round_no s + 1, clues)]"
    and "stop \<Longrightarrow> history s' = history s"
proof -
  let ?s0 = "s\<lparr>round_no := round_no s + 1, current_round_clues := [],
                 current_turn_index := 0, expecting_clue_from := None\<rparr>"
  obtain s1 env1 where a1: "await ?s0 env = (s1, env1)" by (cases "await ?s0 env")
  obtain st s2 env2 where t: "play_turns polls (alive_players ?s0) s1 env1 = (st, s2, env2)"
    by (cases "play_turns polls (alive_players ?s0) s1 env1")
  let ?s2 = "s2\<lparr>history := history s2 @ [(round_no s2, current_round_clues s2)]\<rparr>"
  obtain s3 env3 where a3: "await ?s2 env2 = (s3, env3)" by (cases "await ?s2 env2")
  note f1 = await_fields[OF a1] and f2 = play_turns_fields[OF t] and f3 = await_fields[OF a3]
  from assms a1 t a3
  have r: "(stop, s', env') = (if st then (True, s2, env2) else (False, s3, env3))"
    by (cases st) (simp_all add: play_round_def Let_def)
  show "round_no s' = round_no s + 1" using r f1 f2 f3 by (cases st) simp_all
  show "voting_open s' = voting_open s" using r f1 f2 f3 by (cases st) simp_all
  show "started s' = started s" using r f1 f2 f3 by (cases st) simp_all
  show "stop \<longrightarrow> voting_open s" using r f1 f2 f3 by (cases st) simp_all
  show "\<exists>clues. history s' = history s @ [(round_no s + 1, clues)]" if "\<not> stop"
    using that r f1 f2 f3 by (cases st) simp_all
  show "history s' = history s" if "stop"
    using that r f1 f2 f3 by (cases st) simp_all
qed

text \<open>
  \<open>game_loop\<close>: rounds until the counter reaches \<open>ROUNDS_BEFORE_FINAL_VOTE\<close>, then
  \<open>open_final_voting\<close>; it returns early when a turn finds voting open. (Cancellation
  by \<open>!endgame\<close> is not part of a run.)
\<close>

function game_loop :: "nat \<Rightarrow> GameState \<Rightarrow> env \<Rightarrow> GameState \<times> env" where
  "game_loop polls s env =
     (case play_round polls s env of
        (stop, s', env') \<Rightarrow>
          if stop then (s', env')
          else if ROUNDS_BEFORE_FINAL_VOTE \<le> round_no s' then open_final_voting s' env'
          else game_loop polls s' env')"
  by pat_completeness auto
termination
proof (relation "measure (\<lambda>(polls, s, env). nat (ROUNDS_BEFORE_FINAL_VOTE - round_no s))",
    goal_cases)
  case 1
  show ?case by simp
next
  case (2 polls s env x y xa ya)
  then have "play_round polls s env = (x, xa, ya)" by simp
  from play_round_fields(1)[OF this] 2 show ?case by auto
qed


declare game_loop.simps [simp del]

lemma game_loop_three_rounds:
  assumes "round_no s = 0" and "\<not> voting_open s"
  shows "\<exists>c1 c2 c3. voting_open (fst (game_loop polls s env))
     \<and> round_no (fst (game_loop polls s env)) = 3
     \<and> history (fst (game_loop polls s env)) = history s @ [(1, c1), (2, c2), (3, c3)]"
proof -
  obtain st1 s1 env1 where r1: "play_round polls s env = (st1, s1, env1)"
    by (cases "play_round polls s env")
  obtain st2 s2 env2 where r2: "play_round polls s1 env1 = (st2, s2, env2)"
    by (cases "play_round polls s1 env1")
  obtain st3 s3 env3 where r3: "play_round polls s2 env2 = (st3, s3, env3)"
    by (cases "play_round polls s2 env2")
  note f1 = play_round_fields[OF r1] and f2 = play_round_fields[OF r2]
    and f3 = play_round_fields[OF r3]
  have n1: "\<not> st1" "round_no s1 = 1" "\<not> voting_open s1" using f1 assms by auto
  have n2: "\<not> st2" "round_no s2 = 2" "\<not> voting_open s2" using f2 n1 by auto
  have n3: "\<not> st3" "round_no s3 = 3" "\<not> voting_open s3" using f3 n2 by auto
  have "game_loop polls s env = game_loop polls s1 env1"
    using r1 n1 by (subst game_loop.simps) (simp add: ROUNDS_BEFORE_FINAL_VOTE_def)
  also have "\<dots> = game_loop polls s2 env2"
    using r2 n2 by (subst game_loop.simps) (simp add: ROUNDS_BEFORE_FINAL_VOTE_def)
  also have "\<dots> = open_final_voting s3 env3"
    using r3 n3 by (subst game_loop.simps) (simp add: ROUNDS_BEFORE_FINAL_VOTE_def)
  finally have g: "game_loop polls s env = open_final_voting s3 env3" .
  obtain s4 env4 where o: "await (s3\<lparr>voting_open := True, votes := []\<rparr>) env3 = (s4, env4)"
    by (cases "await (s3\<lparr>voting_open := True, votes := []\<rparr>) env3")
  from f1(5)[OF n1(1)] obtain c1 where h1: "history s1 = history s @ [(round_no s + 1, c1)]" ..
  from f2(5)[OF n2(1)] obtain c2 where h2: "history s2 = history s1 @ [(round_no s1 + 1, c2)]" ..
  from f3(5)[OF n3(1)] obtain c3 where h3: "history s3 = history s2 @ [(round_no s2 + 1, c3)]" ..
  from await_fields[OF o] g o h1 h2 h3 n1 n2 n3 assms
  have "voting_open (fst (game_loop polls s env))
     \<and> round_no (fst (game_loop polls s env)) = 3
     \<and> history (fst (game_loop polls s env)) = history s @ [(1, c1), (2, c2), (3, c3)]"
    by (simp add: open_final_voting_def)
  then show ?thesis by blast
qed

lemma game_loop_started: "started (fst (game_loop polls s env)) = started s"
proof (induction polls s env rule: game_loop.induct)
  case (1 polls s env)
  obtain st s1 env1 where r: "play_round polls s env = (st, s1, env1)"
    by (cases "play_round polls s env")
  note f = play_round_fields[OF r]
  show ?case
  proof (cases "st \<or> ROUNDS_BEFORE_FINAL_VOTE \<le> round_no s1")
    case True
    obtain s2 env2 where o: "await (s1\<lparr>voting_open := True, votes := []\<rparr>) env1 = (s2, env2)"
      by (cases "await (s1\<lparr>voting_open := True, votes := []\<rparr>) env1")
    from True r f(3) await_fields(4)[OF o] o show ?thesis
      by (subst game_loop.simps) (auto simp: open_final_voting_def)
  next
    case False
    then have "game_loop polls s env = game_loop polls s1 env1"
      using r by (subst game_loop.simps) simp
    moreover have "started (fst (game_loop polls s1 env1)) = started s1"
      using "1.IH"[OF r[symmetric] refl] False by simp
    ultimately show ?thesis using f(3) by simp
  qed
qed

section \<open>A session to evaluate on\<close>

text \<open>Three players, started, the state \<open>cmd_startgame\<close> leaves before round 1.\<close>

definition demo_game :: GameState where
  "demo_game =
     \<lparr>guild_id = 1, channel_id = 2, host_id = 10, started = True,
      players = [(10, \<lparr>user_id = 10, alive = True\<rparr>), (11, \<lparr>user_id = 11, alive = True\<rparr>),
                 (12, \<lparr>user_id = 12, alive = True\<rparr>)],
      join_order = [10, 11, 12], secret_word = Some ''PIZZA'', imposters = {11},
      lobby_message_id = Some 5, round_no = 0, current_turn_index = 0,
      current_round_clues = [], history = [], expecting_clue_from = None,
      voting_open = False, votes = []\<rparr>"

section \<open>The final vote opens after three rounds\<close>

lemma clue_rejected_while_voting:
  assumes "voting_open t"
  shows "ClueModal_on_submit t uid raw =
      (Rejected (if \<not> started t then NoActiveGame
                 else if py_strip raw = [] then EmptyClue else VotingOpen), t)"
    and "TurnClueView_submit t uid =
      (Rejected (if \<not> started t then NoActiveGame else VotingOpen), t)"
  using assms by (simp_all add: ClueModal_on_submit_def TurnClueView_submit_def Let_def)

text \<open>
  Claim C8. From the state a start leaves (round counter 0, voting closed), whatever
  the players do and however long a turn window is, \<open>game_loop\<close> returns after exactly
  the rounds 1, 2 and 3 have been appended to the history, with voting open; and in
  any state with voting open the clue button and the clue modal reject, leaving the
  state as it is.
\<close>

theorem voting_opens_after_three_rounds:
  assumes "round_no s = 0" and "\<not> voting_open s"
  shows "(\<exists>c1 c2 c3. history (fst (game_loop polls s env)) = history s @ [(1, c1), (2, c2), (3, c3)])
    \<and> round_no (fst (game_loop polls s env)) = ROUNDS_BEFORE_FINAL_VOTE
    \<and> voting_open (fst (game_loop polls s env))
    \<and> (\<forall>t uid raw. voting_open t \<longrightarrow>
          ClueModal_on_submit t uid raw =
            (Rejected (if \<not> started t then NoActiveGame
                       else if py_strip raw = [] then EmptyClue else VotingOpen), t)
          \<and> TurnClueView_submit t uid =
            (Rejected (if \<not> started t then NoActiveGame else VotingOpen), t))"
  using game_loop_three_rounds[OF assms, of polls env] clue_rejected_while_voting
  by (auto simp: ROUNDS_BEFORE_FINAL_VOTE_def)

theorem voting_opens_after_three_rounds_witness:
  "round_no demo_game = 0 \<and> \<not> voting_open demo_game
   \<and> voting_open (fst (game_loop 2 demo_game [[], [ClueModal 10 ''warm'']]))
   \<and> round_no (fst (game_loop 2 demo_game [[], [ClueModal 10 ''warm'']])) = 3
   \<and> length (history (fst (game_loop 2 demo_game [[], [ClueModal 10 ''warm'']]))) = 3
   \<and> ClueModal_on_submit (fst (game_loop 2 demo_game [[], [ClueModal 10 ''warm'']])) 11 ''cold''
       = (Rejected VotingOpen, fst (game_loop 2 demo_game [[], [ClueModal 10 ''warm'']]))"
proof -
  have h: "round_no demo_game = 0" "\<not> voting_open demo_game" "started demo_game"
    by (simp_all add: demo_game_def)
  have st: "started (fst (game_loop 2 demo_game [[], [ClueModal 10 ''warm'']]))"
    using h(3) by (simp add: game_loop_started)
  have ne: "py_strip ''cold'' \<noteq> []"
    by (simp add: py_strip_def is_space_def)
  from voting_opens_after_three_rounds[OF h(1,2), of 2 "[[], [ClueModal 10 ''warm'']]"] h st ne
  show ?thesis by (auto simp: ROUNDS_BEFORE_FINAL_VOTE_def demo_game_def)
qed


section \<open>Dictionaries\<close>

lemma dict_get_dict_set:
  "dict_get (dict_set k v d) k' = (if k' = k then Some v else dict_get d k')"
  by (induction d) (auto simp: dict_get_def)

lemma dict_keys_dict_set:
  "set (dict_keys (dict_set k v d)) = insert k (set (dict_keys d))"
  by (induction d) (auto simp: dict_keys_def)

lemma distinct_dict_set:
  "distinct (dict_keys d) \<Longrightarrow> distinct (dict_keys (dict_set k v d))"
proof (induction d)
  case Nil
  then show ?case by (simp add: dict_keys_def)
next
  case (Cons p d)
  have "set (map fst (dict_set k v d)) = insert k (set (map fst d))"
    using dict_keys_dict_set[of k v d] by (simp add: dict_keys_def)
  with Cons show ?case by (auto simp: dict_keys_def)
qed

lemma dict_in_get: "dict_in k d \<longleftrightarrow> dict_get d k \<noteq> None"
  by (simp add: dict_in_def dict_get_def dict_keys_def map_of_eq_None_iff)

lemma dict_get_member:
  "distinct (dict_keys d) \<Longrightarrow> (k, v) \<in> set d \<longleftrightarrow> dict_get d k = Some v"
  by (simp add: dict_keys_def dict_get_def)

section \<open>The tally\<close>

text \<open>
  What the count is compared with. An entry of \<open>votes\<close> is counted when it passes
  the two guards of the counting loop: the voter is a player, and the target is 0
  (skip) or a player. \<open>votes_for vs t\<close> is the number of voters the map \<open>vs\<close> sends
  to \<open>t\<close>, \<open>count_of counts t\<close> the count of bucket \<open>t\<close> (0 when there is none). The
  candidates for the top guess are the non-skip buckets when there is one, all
  buckets otherwise.
\<close>

definition counted :: "(int, Player) dict \<Rightarrow> int \<times> int \<Rightarrow> bool" where
  "counted ps vt = (dict_in (fst vt) ps \<and> (snd vt = 0 \<or> dict_in (snd vt) ps))"

definition votes_for :: "(int, int) dict \<Rightarrow> int \<Rightarrow> nat" where
  "votes_for vs t = length (filter (\<lambda>vt. snd vt = t) vs)"

definition count_of :: "(int, nat) dict \<Rightarrow> int \<Rightarrow> nat" where
  "count_of counts t = (case dict_get counts t of None \<Rightarrow> 0 | Some c \<Rightarrow> c)"

definition candidates :: "(int, nat) dict \<Rightarrow> int set" where
  "candidates counts =
     (if \<exists>k \<in> set (dict_keys counts). k \<noteq> 0 then set (dict_keys counts) - {0}
      else set (dict_keys counts))"

lemma count_votes_get:
  "dict_get (count_votes ps vs counts) t =
     (if votes_for (filter (counted ps) vs) t = 0 then dict_get counts t
      else Some (count_of counts t + votes_for (filter (counted ps) vs) t))"
proof (induction vs arbitrary: counts)
  case Nil
  then show ?case by (simp add: votes_for_def)
next
  case (Cons vt vs)
  obtain voter target where vt: "vt = (voter, target)" by (cases vt)
  show ?case
  proof (cases "counted ps vt")
    case False
    then show ?thesis using Cons[of counts] vt by (auto simp: counted_def votes_for_def)
  next
    case True
    let ?c = "dict_set target (count_of counts target + 1) counts"
    from True vt have step: "count_votes ps (vt # vs) counts = count_votes ps vs ?c"
      by (auto simp: counted_def count_of_def)
    show ?thesis
      unfolding step Cons[of ?c] using True vt
      by (auto simp: votes_for_def dict_get_dict_set count_of_def)
  qed
qed

lemma count_votes_distinct:
  "distinct (dict_keys counts) \<Longrightarrow> distinct (dict_keys (count_votes ps vs counts))"
  by (induction ps vs counts rule: count_votes.induct) (auto simp: distinct_dict_set)


lemma vote_pool_keys: "set (dict_keys (vote_pool counts)) = candidates counts"
proof -
  let ?ns = "filter (\<lambda>(k, v). k \<noteq> 0) counts"
  have k: "set (map fst ?ns) = set (map fst counts) - {0}" by force
  have "?ns \<noteq> [] \<longleftrightarrow> (\<exists>k \<in> set (map fst counts). k \<noteq> 0)"
    by (force simp: filter_empty_conv)
  with k show ?thesis
    by (simp add: vote_pool_def candidates_def dict_keys_def Let_def)
qed

lemma vote_pool_subset: "set (vote_pool counts) \<subseteq> set counts"
  by (auto simp: vote_pool_def Let_def)

lemma vote_pool_distinct:
  "distinct (dict_keys counts) \<Longrightarrow> distinct (dict_keys (vote_pool counts))"
  by (simp add: vote_pool_def Let_def dict_keys_def distinct_map_filter)

lemma vote_pool_get:
  assumes "distinct (dict_keys counts)" and "t \<in> candidates counts"
  shows "dict_get (vote_pool counts) t = dict_get counts t"
proof -
  from assms(2) have "t \<in> set (dict_keys (vote_pool counts))" by (simp add: vote_pool_keys)
  then obtain c where c: "(t, c) \<in> set (vote_pool counts)" by (auto simp: dict_keys_def)
  then have "(t, c) \<in> set counts" using vote_pool_subset by blast
  with c assms(1) vote_pool_distinct[OF assms(1)] show ?thesis
    by (simp add: dict_get_member)
qed

lemma distinct_singleton: "distinct xs \<Longrightarrow> set xs = {x} \<Longrightarrow> xs = [x]"
  by (cases xs) (auto simp: insert_eq_iff dest!: subset_singletonD split: if_splits)

lemma unique_top:
  assumes d: "distinct (map fst pool)"
  shows "(case map fst (filter (\<lambda>(pid, c). c = Max (set (map snd pool))) pool) of
            [t] \<Rightarrow> Some t | _ \<Rightarrow> None) = Some t
     \<longleftrightarrow> (\<exists>c. (t, c) \<in> set pool \<and> (\<forall>(t', c') \<in> set pool. t' \<noteq> t \<longrightarrow> c' < c))"
    (is "?lhs \<longleftrightarrow> ?rhs")
proof
  let ?m = "Max (set (map snd pool))"
  let ?f = "filter (\<lambda>(pid, c). c = ?m) pool"
  assume ?lhs
  then have "map fst ?f = [t]" by (auto split: list.splits)
  then obtain c where f: "?f = [(t, c)]" by (cases ?f) auto
  then have "(t, c) \<in> set ?f" by simp
  then have tc: "(t, c) \<in> set pool" "c = ?m" by auto
  have "c' < c" if "(t', c') \<in> set pool" "t' \<noteq> t" for t' c'
  proof -
    have "c' \<le> ?m" using that(1) by (intro Max_ge) force+
    moreover have "c' \<noteq> ?m"
    proof
      assume "c' = ?m"
      with that(1) have "(t', c') \<in> set ?f" by simp
      with f that(2) show False by simp
    qed
    ultimately show ?thesis using tc(2) by simp
  qed
  with tc(1) show ?rhs by blast
next
  let ?m = "Max (set (map snd pool))"
  let ?f = "filter (\<lambda>(pid, c). c = ?m) pool"
  assume ?rhs
  then obtain c where tc: "(t, c) \<in> set pool"
    and lt: "\<And>t' c'. (t', c') \<in> set pool \<Longrightarrow> t' \<noteq> t \<Longrightarrow> c' < c" by blast
  have same: "c' = c" if "(t, c') \<in> set pool" for c'
    using d tc that by (meson eq_key_imp_eq_value)
  have m: "?m = c"
  proof (rule Max_eqI)
    show "finite (set (map snd pool))" by simp
    show "c \<in> set (map snd pool)" using tc by force
    fix y assume "y \<in> set (map snd pool)"
    then obtain t' where "(t', y) \<in> set pool" by auto
    then show "y \<le> c" using lt[of t' y] same[of y] by (cases "t' = t") auto
  qed
  have "set ?f = {(t, c)}"
  proof (rule set_eqI, rule iffI)
    fix x assume a: "x \<in> set ?f"
    obtain t' c' where x: "x = (t', c')" by (cases x)
    with a m have p: "(t', c') \<in> set pool" "c' = c" by auto
    then have "t' = t" using lt[of t' c'] by auto
    with x p show "x \<in> {(t, c)}" by simp
  next
    fix x assume "x \<in> {(t, c)}"
    then show "x \<in> set ?f" using tc m by simp
  qed
  moreover have "distinct ?f" using d by (simp add: distinct_map)
  ultimately have "?f = [(t, c)]" by (rule distinct_singleton[rotated])
  then show ?lhs by simp
qed


lemma top_guess_iff:
  assumes "distinct (dict_keys counts)"
  shows "top_guess counts = Some t \<longleftrightarrow>
     t \<in> candidates counts
     \<and> (\<forall>t' \<in> candidates counts. t' \<noteq> t \<longrightarrow> count_of counts t' < count_of counts t)"
proof (cases "counts = []")
  case True
  then show ?thesis by (simp add: top_guess_def candidates_def dict_keys_def)
next
  case False
  let ?pool = "vote_pool counts"
  have d: "distinct (map fst ?pool)"
    using vote_pool_distinct[OF assms] by (simp add: dict_keys_def)
  have mem: "(k, c) \<in> set ?pool \<longleftrightarrow> k \<in> candidates counts \<and> dict_get counts k = Some c" for k c
  proof
    assume a: "(k, c) \<in> set ?pool"
    then have "k \<in> set (dict_keys ?pool)" by (force simp: dict_keys_def)
    moreover from a have "(k, c) \<in> set counts" using vote_pool_subset by blast
    ultimately show "k \<in> candidates counts \<and> dict_get counts k = Some c"
      using assms by (simp add: vote_pool_keys dict_get_member)
  next
    assume a: "k \<in> candidates counts \<and> dict_get counts k = Some c"
    then have "dict_get ?pool k = Some c" using vote_pool_get[OF assms, of k] by simp
    then show "(k, c) \<in> set ?pool"
      using vote_pool_distinct[OF assms] by (simp add: dict_get_member)
  qed
  have cand: "k \<in> candidates counts \<Longrightarrow> \<exists>c. dict_get counts k = Some c" for k
    by (auto simp: candidates_def dict_in_get[unfolded dict_in_def] split: if_splits)
  have "top_guess counts = Some t \<longleftrightarrow>
      (\<exists>c. (t, c) \<in> set ?pool \<and> (\<forall>(t', c') \<in> set ?pool. t' \<noteq> t \<longrightarrow> c' < c))"
    using False unique_top[OF d, of t] by (simp add: top_guess_def Let_def)
  also have "\<dots> \<longleftrightarrow> t \<in> candidates counts
     \<and> (\<forall>t' \<in> candidates counts. t' \<noteq> t \<longrightarrow> count_of counts t' < count_of counts t)"
    (is "?a \<longleftrightarrow> ?b")
  proof
    assume ?a
    then obtain c where c: "(t, c) \<in> set ?pool"
      and lt: "\<And>t' c'. (t', c') \<in> set ?pool \<Longrightarrow> t' \<noteq> t \<Longrightarrow> c' < c" by blast
    from c have tc: "t \<in> candidates counts" "dict_get counts t = Some c" by (simp_all add: mem)
    have "count_of counts t' < count_of counts t" if "t' \<in> candidates counts" "t' \<noteq> t" for t'
    proof -
      from cand[OF that(1)] obtain c' where c': "dict_get counts t' = Some c'" ..
      with that(1) have "(t', c') \<in> set ?pool" by (simp add: mem)
      from lt[OF this that(2)] c' tc(2) show ?thesis by (simp add: count_of_def)
    qed
    with tc(1) show ?b by blast
  next
    assume b: ?b
    then have tc: "t \<in> candidates counts" by blast
    from cand[OF tc] obtain c where c: "dict_get counts t = Some c" ..
    have "c' < c" if "(t', c') \<in> set ?pool" "t' \<noteq> t" for t' c'
    proof -
      from that(1) have m: "t' \<in> candidates counts" "dict_get counts t' = Some c'"
        by (simp_all add: mem)
      with b that(2) c show ?thesis by (auto simp: count_of_def)
    qed
    moreover from tc c have "(t, c) \<in> set ?pool" by (simp add: mem)
    ultimately show ?a by blast
  qed
  finally show ?thesis .
qed

text \<open>
  The session above at the final vote, with a given vote map; a tally with a winner,
  a tie, and a vote where everyone skipped.
\<close>

definition demo_vote :: "(int, int) dict \<Rightarrow> GameState" where
  "demo_vote vs = demo_game\<lparr>round_no := 3, voting_open := True, votes := vs\<rparr>"

lemma demo_tally:
  "finalize_final_voting (demo_vote [(10, 11), (12, 11), (11, 0)]) =
     (Some \<lparr>reveal_word = ''PIZZA'', reveal_imposters = {11},
             reveal_counts = [(11, 2), (0, 1)], reveal_top = Some 11\<rparr>,
      (demo_vote [(10, 11), (12, 11), (11, 0)])\<lparr>voting_open := False\<rparr>)"
  by (simp add: finalize_final_voting_def demo_vote_def demo_game_def dict_in_def dict_keys_def
      dict_get_def top_guess_def vote_pool_def Let_def)

lemma demo_tie:
  "reveal_top (the (fst (finalize_final_voting (demo_vote [(10, 11), (11, 10), (12, 0)])))) = None"
  by (simp add: finalize_final_voting_def demo_vote_def demo_game_def dict_in_def dict_keys_def
      dict_get_def top_guess_def vote_pool_def Let_def)

lemma demo_skip_only:
  "reveal_top (the (fst (finalize_final_voting (demo_vote [(10, 0), (11, 0)])))) = Some 0"
  by (simp add: finalize_final_voting_def demo_vote_def demo_game_def dict_in_def dict_keys_def
      dict_get_def top_guess_def vote_pool_def Let_def)

text \<open>When every entry is an acceptable vote, the count is the number of voters of the target.\<close>

lemma acceptable_votes_all_counted:
  assumes "list_all (counted ps) vs"
  shows "count_of (count_votes ps vs []) t = votes_for vs t"
proof -
  from assms have "filter (counted ps) vs = vs" by (simp add: list_all_iff)
  then show ?thesis
    unfolding count_of_def count_votes_get by (simp add: count_of_def dict_get_def)
qed

text \<open>
  Claim C1, as stated, fails on a vote the count skips. Player 10 votes for 99, who
  is not in the game (the select menu records it), and player 11 skips. Target 99
  has one voter and no bucket, and the top guess is skip although the map holds a
  non-skip vote.
\<close>

theorem unknown_target_vote_not_counted:
  "run_events (demo_vote []) [VoteSelect 10 99, VoteSkip 11] = demo_vote [(10, 99), (11, 0)]
   \<and> votes_for (votes (demo_vote [(10, 99), (11, 0)])) 99 = 1
   \<and> finalize_final_voting (demo_vote [(10, 99), (11, 0)]) =
       (Some \<lparr>reveal_word = ''PIZZA'', reveal_imposters = {11},
               reveal_counts = [(0, 1)], reveal_top = Some 0\<rparr>,
        (demo_vote [(10, 99), (11, 0)])\<lparr>voting_open := False\<rparr>)"
  by (simp add: run_events_def apply_event_def VoteSelect_callback_def VoteView_skip_def
      VoteView_record_def votes_for_def finalize_final_voting_def demo_vote_def demo_game_def
      dict_in_def dict_keys_def dict_get_def top_guess_def vote_pool_def Let_def)

text \<open>
  Claim C1, amended. When voting is open, \<open>finalize_final_voting\<close> closes it and
  reveals the tally of the counted entries of the final map: an entry is counted
  when its voter is in the roster and its target is 0 or in the roster. There is a
  bucket for exactly the targets with a counted vote, and it holds the number of
  counted voters mapped to the target. The top guess is \<open>t\<close> exactly when \<open>t\<close> is a
  candidate whose count is strictly above the count of every other candidate: the
  candidates are the non-skip buckets if there is one, else all buckets; with a tie
  for the highest count, or no bucket, there is no top guess.
\<close>

theorem tally_top_guess:
  assumes "voting_open s"
  shows "\<exists>r. finalize_final_voting s = (Some r, s\<lparr>voting_open := False\<rparr>)
     \<and> (\<forall>t. dict_get (reveal_counts r) t =
            (if votes_for (filter (counted (players s)) (votes s)) t = 0 then None
             else Some (votes_for (filter (counted (players s)) (votes s)) t)))
     \<and> (\<forall>t. reveal_top r = Some t \<longleftrightarrow>
            t \<in> candidates (reveal_counts r)
            \<and> (\<forall>t' \<in> candidates (reveal_counts r). t' \<noteq> t \<longrightarrow>
                  count_of (reveal_counts r) t' < count_of (reveal_counts r) t))"
proof -
  let ?counts = "count_votes (players s) (votes s) []"
  have d: "distinct (dict_keys ?counts)"
    by (rule count_votes_distinct) (simp add: dict_keys_def)
  have g: "dict_get ?counts t =
            (if votes_for (filter (counted (players s)) (votes s)) t = 0 then None
             else Some (votes_for (filter (counted (players s)) (votes s)) t))" for t
    unfolding count_votes_get by (simp add: count_of_def dict_get_def)
  from assms d g top_guess_iff[OF d] show ?thesis
    by (simp add: finalize_final_voting_def Let_def)
qed

theorem tally_top_guess_witness:
  "voting_open (demo_vote [(10, 11), (12, 11), (11, 0)])
   \<and> (\<exists>r. finalize_final_voting (demo_vote [(10, 11), (12, 11), (11, 0)]) =
          (Some r, (demo_vote [(10, 11), (12, 11), (11, 0)])\<lparr>voting_open := False\<rparr>)
        \<and> reveal_counts r = [(11, 2), (0, 1)]
        \<and> dict_get (reveal_counts r) 11 =
            Some (votes_for (filter (counted (players (demo_vote [(10, 11), (12, 11), (11, 0)])))
                    (votes (demo_vote [(10, 11), (12, 11), (11, 0)]))) 11)
        \<and> candidates (reveal_counts r) = {11}
        \<and> reveal_top r = Some 11)"
proof -
  let ?s = "demo_vote [(10, 11), (12, 11), (11, 0)]"
  have o: "voting_open ?s" by (simp add: demo_vote_def)
  have n: "votes_for (filter (counted (players ?s)) (votes ?s)) 11 = 2"
    by (simp add: demo_vote_def demo_game_def counted_def votes_for_def dict_in_def dict_keys_def)
  from tally_top_guess[OF o] obtain r where
    r: "finalize_final_voting ?s = (Some r, ?s\<lparr>voting_open := False\<rparr>)"
    and c: "dict_get (reveal_counts r) 11 =
            (if votes_for (filter (counted (players ?s)) (votes ?s)) 11 = 0 then None
             else Some (votes_for (filter (counted (players ?s)) (votes ?s)) 11))"
    by blast
  from r have e: "r = \<lparr>reveal_word = ''PIZZA'', reveal_imposters = {11},
             reveal_counts = [(11, 2), (0, 1)], reveal_top = Some 11\<rparr>"
    by (simp add: demo_tally)
  have k: "candidates [(11, 2), (0, 1)] = {11 :: int}"
    by (auto simp: candidates_def dict_keys_def)
  from o r c n e k show ?thesis by simp
qed

section \<open>Clues\<close>

text \<open>The first player's turn in round 1 of the session above.\<close>

definition demo_turn :: GameState where
  "demo_turn = demo_game\<lparr>round_no := 1, expecting_clue_from := Some 10\<rparr>"

lemma py_upper_Nil: "py_upper x = [] \<longleftrightarrow> x = []"
  by (simp add: py_upper_def)

text \<open>
  Claim C7. In a session whose secret word is \<open>w\<close>, a submission whose stripped text
  equals \<open>w\<close> up to case (\<open>upper()\<close> of both agree) is rejected by the modal, whoever
  sends it and in whatever phase: with the rejection of the first check it fails, the
  exact-word rejection when it is the sender's turn. The state is returned as it was:
  nothing is recorded in the round's clues and the turn cursor stays.
\<close>

theorem exact_word_never_accepted:
  assumes "secret_word s = Some w" and "py_upper (py_strip raw) = py_upper w"
  shows "ClueModal_on_submit s uid raw =
      (Rejected (if \<not> started s then NoActiveGame
                 else if py_strip raw = [] then EmptyClue
                 else if voting_open s then VotingOpen
                 else if expecting_clue_from s \<noteq> Some uid then NotYourTurn
                 else ExactWordClue), s)
    \<and> current_round_clues (apply_event s (ClueModal uid raw)) = current_round_clues s
    \<and> expecting_clue_from (apply_event s (ClueModal uid raw)) = expecting_clue_from s"
proof -
  have "is_exact_word s (py_strip raw)" if "py_strip raw \<noteq> []"
  proof -
    from that assms(2) have "w \<noteq> []" using py_upper_Nil[of w] py_upper_Nil[of "py_strip raw"]
      by auto
    with assms show ?thesis by (simp add: is_exact_word_def)
  qed
  then have r: "ClueModal_on_submit s uid raw =
      (Rejected (if \<not> started s then NoActiveGame
                 else if py_strip raw = [] then EmptyClue
                 else if voting_open s then VotingOpen
                 else if expecting_clue_from s \<noteq> Some uid then NotYourTurn
                 else ExactWordClue), s)"
    by (simp add: ClueModal_on_submit_def Let_def)
  then show ?thesis by (simp add: apply_event_def)
qed

theorem exact_word_never_accepted_witness:
  "secret_word demo_turn = Some ''PIZZA''
   \<and> py_upper (py_strip '' Pizza '') = py_upper ''PIZZA''
   \<and> ClueModal_on_submit demo_turn 10 '' Pizza '' = (Rejected ExactWordClue, demo_turn)
   \<and> current_round_clues (apply_event demo_turn (ClueModal 10 '' Pizza '')) = []
   \<and> expecting_clue_from (apply_event demo_turn (ClueModal 10 '' Pizza '')) = Some 10"
proof -
  have a: "secret_word demo_turn = Some ''PIZZA''"
    by (simp add: demo_turn_def demo_game_def)
  have st: "py_strip '' Pizza '' = ''Pizza''"
    by (simp add: py_strip_def is_space_def)
  have b: "py_upper (py_strip '' Pizza '') = py_upper ''PIZZA''"
    unfolding st by (simp add: py_upper_def upper_char_def)
  from exact_word_never_accepted[OF a b, of 10] st show ?thesis
    using a b by (simp add: demo_turn_def demo_game_def)
qed


text \<open>
  Claim C9. When \<open>wait_for_player_clue\<close> gives up (the window has elapsed and no look
  found a clue of the player), the turn goes on from \<open>record_timeout\<close>: afterwards the
  player's entry is the placeholder if there was none, and the clue that was there
  otherwise (a clue accepted between the last look and the write is kept, the state
  is not written at all); no other entry changes; and writing a second time changes
  nothing.
\<close>

theorem timeout_placeholder_written_once:
  assumes "wait_for_player_clue polls s pid env = (False, s1, env1)"
  shows "await_clue polls s pid env = await (record_timeout s1 pid) env1
    \<and> dict_get (current_round_clues (record_timeout s1 pid)) pid =
        Some (case dict_get (current_round_clues s1) pid of None \<Rightarrow> timeout_clue | Some c \<Rightarrow> c)
    \<and> (dict_in pid (current_round_clues s1) \<longrightarrow> record_timeout s1 pid = s1)
    \<and> (\<forall>q. q \<noteq> pid \<longrightarrow>
          dict_get (current_round_clues (record_timeout s1 pid)) q =
          dict_get (current_round_clues s1) q)
    \<and> record_timeout (record_timeout s1 pid) pid = record_timeout s1 pid"
proof -
  have a: "await_clue polls s pid env = await (record_timeout s1 pid) env1"
    using assms by (simp add: await_clue_def)
  have b: "dict_get (current_round_clues (record_timeout s1 pid)) pid =
        Some (case dict_get (current_round_clues s1) pid of None \<Rightarrow> timeout_clue | Some c \<Rightarrow> c)"
    by (auto simp: record_timeout_def dict_get_dict_set dict_in_get)
  have c: "dict_get (current_round_clues (record_timeout s1 pid)) q =
          dict_get (current_round_clues s1) q" if "q \<noteq> pid" for q
    using that by (simp add: record_timeout_def dict_get_dict_set)
  have d: "record_timeout (record_timeout s1 pid) pid = record_timeout s1 pid"
    by (simp add: record_timeout_def dict_in_get dict_get_dict_set)
  from a b c d show ?thesis by (simp add: record_timeout_def)
qed

theorem timeout_placeholder_written_once_witness:
  "wait_for_player_clue 2 demo_turn 10 [[ClueModal 11 ''early'']] =
      (False, demo_turn, [])
   \<and> await_clue 2 demo_turn 10 [[ClueModal 11 ''early'']] =
      (demo_turn\<lparr>current_round_clues := [(10, timeout_clue)]\<rparr>, [])
   \<and> record_timeout (demo_turn\<lparr>current_round_clues := [(10, ''warm'')]\<rparr>) 10 =
      demo_turn\<lparr>current_round_clues := [(10, ''warm'')]\<rparr>"
proof -
  have w: "wait_for_player_clue 2 demo_turn 10 [[ClueModal 11 ''early'']] =
      (False, demo_turn, [])"
    by (simp add: numeral_2_eq_2 demo_turn_def demo_game_def dict_in_def dict_keys_def
        run_events_def apply_event_def ClueModal_on_submit_def py_strip_def is_space_def)
  have r: "record_timeout demo_turn 10 = demo_turn\<lparr>current_round_clues := [(10, timeout_clue)]\<rparr>"
    by (simp add: record_timeout_def demo_turn_def demo_game_def dict_in_def dict_keys_def)
  have k: "dict_in 10 (current_round_clues (demo_turn\<lparr>current_round_clues := [(10, ''warm'')]\<rparr>))"
    by (simp add: dict_in_def dict_keys_def)
  have w2: "wait_for_player_clue 0 (demo_turn\<lparr>current_round_clues := [(10, ''warm'')]\<rparr>) 10 [] =
      (False, demo_turn\<lparr>current_round_clues := [(10, ''warm'')]\<rparr>, [])"
    by simp
  from timeout_placeholder_written_once[OF w] timeout_placeholder_written_once[OF w2] w r k
  show ?thesis by simp
qed

text \<open>
  Claim C2 fails on the modal. The button refuses a player who already has a clue
  this round, but \<open>ClueModal.on_submit\<close>, which records the clue, has no such check:
  while the turn cursor is still on the player (until the polling loop has seen the
  first clue), a second submission is accepted and replaces the first. Here the
  player sends \<open>warm\<close> and then \<open>cold\<close> before the next look of the loop.
\<close>

theorem second_clue_overwrites_first:
  "ClueModal_on_submit demo_turn 10 ''warm'' =
     (ClueSubmitted, demo_turn\<lparr>current_round_clues := [(10, ''warm'')]\<rparr>)
   \<and> ClueModal_on_submit (demo_turn\<lparr>current_round_clues := [(10, ''warm'')]\<rparr>) 10 ''cold'' =
     (ClueSubmitted, demo_turn\<lparr>current_round_clues := [(10, ''cold'')]\<rparr>)
   \<and> TurnClueView_submit (demo_turn\<lparr>current_round_clues := [(10, ''warm'')]\<rparr>) 10 =
     (Rejected AlreadySubmitted, demo_turn\<lparr>current_round_clues := [(10, ''warm'')]\<rparr>)
   \<and> fst (wait_for_player_clue 2 demo_turn 10 [[ClueModal 10 ''warm'', ClueModal 10 ''cold'']]) = True
   \<and> current_round_clues
        (fst (snd (wait_for_player_clue 2 demo_turn 10 [[ClueModal 10 ''warm'', ClueModal 10 ''cold'']])))
      = [(10, ''cold'')]"
  by (simp add: numeral_2_eq_2 demo_turn_def demo_game_def dict_in_def dict_keys_def
      run_events_def apply_event_def ClueModal_on_submit_def TurnClueView_submit_def
      py_strip_def is_space_def is_exact_word_def py_upper_def upper_char_def)

section \<open>Votes\<close>

text \<open>What \<open>VoteView._record\<close> rejects, and that an accepted vote replaces the voter's entry.\<close>

lemma VoteView_record_rejects:
  "\<not> voting_open s \<Longrightarrow> VoteView_record s uid target_id = (Rejected VotingClosed, s)"
  "voting_open s \<Longrightarrow> \<not> dict_in uid (players s) \<Longrightarrow>
     VoteView_record s uid target_id = (Rejected NotAPlayer, s)"
  "voting_open s \<Longrightarrow> dict_in uid (players s) \<Longrightarrow> target_id \<noteq> 0 \<Longrightarrow> target_id = uid \<Longrightarrow>
     VoteView_record s uid target_id = (Rejected SelfVote, s)"
  "voting_open s \<Longrightarrow> dict_in uid (players s) \<Longrightarrow> target_id \<noteq> 0 \<Longrightarrow> target_id \<noteq> uid \<Longrightarrow>
     \<not> dict_in target_id (players s) \<Longrightarrow>
     VoteView_record s uid target_id = (Rejected UnknownTarget, s)"
  by (simp_all add: VoteView_record_def)

lemma VoteSelect_callback_rejects:
  "\<not> voting_open s \<Longrightarrow> VoteSelect_callback s uid target_id = (Rejected VotingClosed, s)"
  "voting_open s \<Longrightarrow> \<not> dict_in uid (players s) \<Longrightarrow>
     VoteSelect_callback s uid target_id = (Rejected NotAPlayer, s)"
  "voting_open s \<Longrightarrow> dict_in uid (players s) \<Longrightarrow> target_id = uid \<Longrightarrow>
     VoteSelect_callback s uid target_id = (Rejected SelfVote, s)"
  by (simp_all add: VoteSelect_callback_def)

lemma accepted_vote_overwrites:
  "VoteView_record s uid target_id = (r, s') \<Longrightarrow> r \<in> {VotedSkip, VoteRecorded target_id} \<Longrightarrow>
     dict_get (votes s') uid = Some target_id"
  "VoteSelect_callback s uid target_id = (VoteRecorded t, s') \<Longrightarrow>
     dict_get (votes s') uid = Some target_id"
  by (auto simp: VoteView_record_def VoteSelect_callback_def dict_get_dict_set split: if_splits)

text \<open>
  Claim C3 fails on the select menu. \<open>VoteView._record\<close> rejects a non-zero target
  that is not a player, but it is only ever called by the Skip button, with target 0;
  a vote for a player goes through \<open>VoteSelect.callback\<close>, which checks that voting
  is open, that the voter is a player and that the target is not the voter, and then
  records the target whatever it is. Here player 10 votes for 99, who is not in the
  game: the vote is recorded (and later dropped by the count).
\<close>

theorem select_accepts_unknown_target:
  "\<not> dict_in 99 (players (demo_vote []))
   \<and> VoteSelect_callback (demo_vote []) 10 99 = (VoteRecorded 99, demo_vote [(10, 99)])
   \<and> VoteView_record (demo_vote []) 10 99 = (Rejected UnknownTarget, demo_vote [])
   \<and> reveal_counts (the (fst (finalize_final_voting (demo_vote [(10, 99)])))) = []"
  by (simp add: demo_vote_def demo_game_def dict_in_def dict_keys_def VoteSelect_callback_def
      VoteView_record_def finalize_final_voting_def Let_def)


section \<open>The lobby\<close>

text \<open>
  The keys of \<open>players\<close>, in insertion order, are the join order; no id is in it twice;
  the host is in it. The lobby is created so, and no interaction breaks it (after the
  start Join and Leave are refused).
\<close>

definition lobby_inv :: "GameState \<Rightarrow> bool" where
  "lobby_inv s =
     (dict_keys (players s) = join_order s \<and> distinct (join_order s)
      \<and> host_id s \<in> set (join_order s))"

lemma dict_keys_dict_set_new:
  "k \<notin> set (dict_keys d) \<Longrightarrow> dict_keys (dict_set k v d) = dict_keys d @ [k]"
  by (induction d) (auto simp: dict_keys_def)

lemma dict_keys_dict_pop: "dict_keys (dict_pop k d) = filter (\<lambda>u. u \<noteq> k) (dict_keys d)"
  by (induction d) (auto simp: dict_keys_def dict_pop_def)

lemma refresh_lobby_inv: "lobby_inv (refresh_lobby_embed s found) = lobby_inv s"
  by (simp add: lobby_inv_def refresh_fields)

lemma create_lobby_inv: "lobby_inv (create_lobby g c author lobby_msg)"
  by (simp add: lobby_inv_def create_lobby_def new_GameState_def dict_keys_def)

lemma handle_lobby_inv:
  assumes "lobby_inv s"
  shows "lobby_inv (snd (handle s ev))"
proof (cases ev)
  case (Join uid found)
  with assms show ?thesis
    by (auto simp: LobbyView_join_def refresh_lobby_inv dict_in_def)
       (auto simp: lobby_inv_def dict_keys_dict_set_new)
next
  case (Leave uid found)
  with assms show ?thesis
    by (auto simp: LobbyView_leave_def refresh_lobby_inv dict_in_def)
       (auto simp: lobby_inv_def dict_keys_dict_pop)
next
  case (ClueButton uid)
  with assms show ?thesis by (simp add: TurnClueView_submit_def)
next
  case (ClueModal uid raw)
  with assms show ?thesis by (simp add: ClueModal_on_submit_def Let_def lobby_inv_def)
next
  case (VoteSkip uid)
  with assms show ?thesis by (simp add: VoteView_skip_def VoteView_record_def lobby_inv_def)
next
  case (VoteSelect uid t)
  with assms show ?thesis by (simp add: VoteSelect_callback_def lobby_inv_def)
next
  case (VoteClear uid)
  with assms show ?thesis by (simp add: VoteView_clear_def lobby_inv_def)
qed

lemma run_events_lobby_inv: "lobby_inv s \<Longrightarrow> lobby_inv (run_events s evs)"
  unfolding run_events_def
  by (induction evs arbitrary: s) (auto simp: apply_event_def handle_lobby_inv)

lemma handle_host: "host_id (snd (handle s ev)) = host_id s"
  by (cases ev; simp add: LobbyView_join_def LobbyView_leave_def TurnClueView_submit_def
      ClueModal_on_submit_def VoteView_skip_def VoteView_record_def VoteSelect_callback_def
      VoteView_clear_def refresh_fields Let_def)

lemma run_events_host: "host_id (run_events s evs) = host_id s"
  unfolding run_events_def
  by (induction evs arbitrary: s) (auto simp: apply_event_def handle_host)

text \<open>A run of interactions in one channel.\<close>

definition run_lobby :: "int \<times> int \<Rightarrow> registry \<Rightarrow> event list \<Rightarrow> registry" where
  "run_lobby key games evs = foldl (dispatch key) games evs"

lemma dispatch_inv:
  assumes "\<And>s. games key = Some s \<Longrightarrow> lobby_inv s \<and> \<not> started s"
    and "dispatch key games ev key = Some s'"
  shows "lobby_inv s' \<and> \<not> started s'"
proof (cases "games key")
  case None
  with assms(2) show ?thesis by (simp add: dispatch_def)
next
  case (Some s)
  obtain r t where h: "handle s ev = (r, t)" by (cases "handle s ev")
  from assms(2) Some h have "s' = t" by (cases r) (auto simp: dispatch_def)
  moreover from handle_lobby_inv[of s ev] handle_fields(4)[of s ev] assms(1)[OF Some] h
  have "lobby_inv t \<and> \<not> started t" by simp
  ultimately show ?thesis by simp
qed

lemma run_lobby_inv:
  assumes "\<And>s. games key = Some s \<Longrightarrow> lobby_inv s \<and> \<not> started s"
    and "run_lobby key games evs key = Some s'"
  shows "lobby_inv s' \<and> \<not> started s'"
  using assms unfolding run_lobby_def
proof (induction evs arbitrary: games)
  case Nil
  then show ?case by simp
next
  case (Cons ev evs)
  show ?case
  proof (rule Cons.IH[of "dispatch key games ev"])
    fix s assume d: "dispatch key games ev key = Some s"
    show "lobby_inv s \<and> \<not> started s" by (rule dispatch_inv[OF Cons.prems(1) d])
  next
    from Cons.prems(2) show "foldl (dispatch key) (dispatch key games ev) evs key = Some s'"
      by simp
  qed
qed

lemma leave_splits:
  assumes "distinct xs" and "uid \<in> set xs"
  shows "\<exists>before after. xs = before @ uid # after \<and> uid \<notin> set before \<and> uid \<notin> set after
     \<and> filter (\<lambda>u. u \<noteq> uid) xs = before @ after"
proof -
  from split_list[OF assms(2)] obtain ys zs where x: "xs = ys @ uid # zs" by blast
  with assms(1) have n: "uid \<notin> set ys" "uid \<notin> set zs" by auto
  then have "filter (\<lambda>u. u \<noteq> uid) ys = ys" "filter (\<lambda>u. u \<noteq> uid) zs = zs"
    by (auto simp: filter_id_conv)
  with x n show ?thesis by auto
qed

text \<open>
  Claim C4. Take any sequence of interactions in the channel of a freshly created
  lobby (Join and Leave by anyone, and the other buttons, which do nothing to a
  lobby). As long as the session is in the registry it is not started, and the ids
  in the roster are the ids in the join order. In such a state, the Leave of a
  player other than the host is accepted and cuts that one id out of the join
  order: what was before it and what was after it stay, in their order, and the
  roster again matches.
\<close>

theorem lobby_roster_matches_join_order:
  assumes "run_lobby (g, c) (lobby_created g c host lobby_msg) evs (g, c) = Some s"
  shows "\<not> started s
    \<and> set (dict_keys (players s)) = set (join_order s)
    \<and> (\<forall>uid found. dict_in uid (players s) \<and> uid \<noteq> host_id s \<longrightarrow>
          (\<exists>s' before after.
             LobbyView_leave s uid found = (Left, s')
             \<and> join_order s = before @ uid # after
             \<and> uid \<notin> set before \<and> uid \<notin> set after
             \<and> join_order s' = before @ after
             \<and> set (dict_keys (players s')) = set (join_order s')))"
proof -
  have init: "lobby_inv t \<and> \<not> started t" if "lobby_created g c host lobby_msg (g, c) = Some t" for t
    using that create_lobby_inv[of g c host lobby_msg]
    by (auto simp: lobby_created_def create_lobby_def new_GameState_def)
  from run_lobby_inv[OF init assms] have inv: "lobby_inv s" and ns: "\<not> started s" by simp_all
  have leave: "\<exists>s' before after.
             LobbyView_leave s uid found = (Left, s')
             \<and> join_order s = before @ uid # after
             \<and> uid \<notin> set before \<and> uid \<notin> set after
             \<and> join_order s' = before @ after
             \<and> set (dict_keys (players s')) = set (join_order s')"
    if "dict_in uid (players s)" "uid \<noteq> host_id s" for uid found
  proof -
    let ?s' = "refresh_lobby_embed
          (s\<lparr>players := dict_pop uid (players s),
             join_order := filter (\<lambda>u. u \<noteq> uid) (join_order s)\<rparr>) found"
    from that ns have l: "LobbyView_leave s uid found = (Left, ?s')"
      by (simp add: LobbyView_leave_def)
    from inv that(1) have "distinct (join_order s)" "uid \<in> set (join_order s)"
      by (simp_all add: lobby_inv_def dict_in_def)
    from leave_splits[OF this] obtain before after where
      sp: "join_order s = before @ uid # after" "uid \<notin> set before" "uid \<notin> set after"
        "filter (\<lambda>u. u \<noteq> uid) (join_order s) = before @ after" by blast
    have j: "join_order ?s' = before @ after" using sp(4) by (simp add: refresh_fields)
    have k: "dict_keys (players ?s') = join_order ?s'"
      using inv by (simp add: refresh_fields dict_keys_dict_pop lobby_inv_def)
    from k have k': "set (dict_keys (players ?s')) = set (join_order ?s')" by simp
    have "LobbyView_leave s uid found = (Left, ?s')
       \<and> join_order s = before @ uid # after
       \<and> uid \<notin> set before \<and> uid \<notin> set after
       \<and> join_order ?s' = before @ after
       \<and> set (dict_keys (players ?s')) = set (join_order ?s')"
      using l sp(1,2,3) j k' by (intro conjI)
    then show ?thesis by (intro exI)
  qed
  from inv ns leave show ?thesis by (simp add: lobby_inv_def)
qed

text \<open>The lobby after 11 and 12 joined, 11 tried again, 11 left and 13 joined.\<close>

definition demo_lobby :: GameState where
  "demo_lobby =
     \<lparr>guild_id = 1, channel_id = 2, host_id = 10, started = False,
      players = [(10, \<lparr>user_id = 10, alive = True\<rparr>), (12, \<lparr>user_id = 12, alive = True\<rparr>),
                 (13, \<lparr>user_id = 13, alive = True\<rparr>)],
      join_order = [10, 12, 13], secret_word = None, imposters = {},
      lobby_message_id = None, round_no = 0, current_turn_index = 0,
      current_round_clues = [], history = [], expecting_clue_from = None,
      voting_open = False, votes = []\<rparr>"

lemma demo_lobby_run:
  "run_lobby (1, 2) (lobby_created 1 2 10 5)
     [Join 11 True, Join 12 False, Join 11 True, Leave 11 True, Join 13 True] (1, 2)
   = Some demo_lobby"
  by (simp add: run_lobby_def dispatch_def lobby_created_def create_lobby_def new_GameState_def
      LobbyView_join_def LobbyView_leave_def refresh_lobby_embed_def dict_in_def dict_keys_def
      dict_pop_def demo_lobby_def)

theorem lobby_roster_matches_join_order_witness:
  "run_lobby (1, 2) (lobby_created 1 2 10 5)
     [Join 11 True, Join 12 False, Join 11 True, Leave 11 True, Join 13 True] (1, 2)
   = Some demo_lobby
   \<and> set (dict_keys (players demo_lobby)) = set (join_order demo_lobby)
   \<and> dict_in 12 (players demo_lobby) \<and> 12 \<noteq> host_id demo_lobby
   \<and> (\<exists>s' before after.
         LobbyView_leave demo_lobby 12 True = (Left, s')
         \<and> join_order demo_lobby = before @ 12 # after
         \<and> 12 \<notin> set before \<and> 12 \<notin> set after
         \<and> join_order s' = before @ after)
   \<and> join_order (snd (LobbyView_leave demo_lobby 12 True)) = [10, 13]"
proof -
  have m: "dict_in 12 (players demo_lobby)" "12 \<noteq> host_id demo_lobby"
    by (simp_all add: demo_lobby_def dict_in_def dict_keys_def)
  have e: "join_order (snd (LobbyView_leave demo_lobby 12 True)) = [10, 13]"
    by (simp add: LobbyView_leave_def demo_lobby_def dict_in_def dict_keys_def
        refresh_lobby_embed_def)
  from lobby_roster_matches_join_order[OF demo_lobby_run] m
  have "set (dict_keys (players demo_lobby)) = set (join_order demo_lobby)"
    and "\<exists>s' before after.
         LobbyView_leave demo_lobby 12 True = (Left, s')
         \<and> join_order demo_lobby = before @ 12 # after
         \<and> 12 \<notin> set before \<and> 12 \<notin> set after
         \<and> join_order s' = before @ after
         \<and> set (dict_keys (players s')) = set (join_order s')"
    by blast+
  then show ?thesis using demo_lobby_run m e by blast
qed


section \<open>Starting the game\<close>

text \<open>A sample is a list of \<open>k\<close> different members of the population.\<close>

lemma remove_nth_parts:
  assumes "i < length xs"
  shows "set (take i xs @ drop (Suc i) xs) \<subseteq> set xs"
    and "length (take i xs @ drop (Suc i) xs) = length xs - 1"
    and "distinct xs \<Longrightarrow> distinct (take i xs @ drop (Suc i) xs)
           \<and> xs ! i \<notin> set (take i xs @ drop (Suc i) xs)"
proof -
  show "set (take i xs @ drop (Suc i) xs) \<subseteq> set xs"
    using set_take_subset[of i xs] set_drop_subset[of "Suc i" xs] by auto
  show "length (take i xs @ drop (Suc i) xs) = length xs - 1"
    using assms by simp
  assume d: "distinct xs"
  from assms have "xs = take i xs @ xs ! i # drop (Suc i) xs" by (rule id_take_nth_drop)
  with d have "distinct (take i xs @ xs ! i # drop (Suc i) xs)" by simp
  then show "distinct (take i xs @ drop (Suc i) xs)
           \<and> xs ! i \<notin> set (take i xs @ drop (Suc i) xs)" by auto
qed

lemma draw_distinct_props:
  "set (draw_distinct rs pool k) \<subseteq> set pool
   \<and> (distinct pool \<longrightarrow> distinct (draw_distinct rs pool k))
   \<and> (k \<le> length pool \<longrightarrow> length (draw_distinct rs pool k) = k)"
proof (induction rs pool k rule: draw_distinct.induct)
  case (1 rs pool)
  then show ?case by simp
next
  case (2 rs k)
  then show ?case by simp
next
  case (3 rs p ps k)
  let ?xs = "p # ps"
  let ?i = "(case rs of [] \<Rightarrow> 0 | r # _ \<Rightarrow> r) mod length ?xs"
  let ?rest = "take ?i ?xs @ drop (Suc ?i) ?xs"
  have i: "?i < length ?xs" by simp
  note ih = "3.IH"[OF refl]
  have eq: "draw_distinct rs ?xs (Suc k) = ?xs ! ?i # draw_distinct (tl rs) ?rest k"
    by (simp add: Let_def)
  have a: "set (draw_distinct rs ?xs (Suc k)) \<subseteq> set ?xs"
  proof -
    have "?xs ! ?i \<in> set ?xs" using i by (rule nth_mem)
    moreover have "set (draw_distinct (tl rs) ?rest k) \<subseteq> set ?xs"
      using ih remove_nth_parts(1)[OF i] by blast
    ultimately show ?thesis unfolding eq by simp
  qed
  have b: "distinct (draw_distinct rs ?xs (Suc k))" if "distinct ?xs"
  proof -
    from remove_nth_parts(3)[OF i that]
    have "distinct ?rest" "?xs ! ?i \<notin> set ?rest" by simp_all
    with ih show ?thesis unfolding eq by auto
  qed
  have c: "length (draw_distinct rs ?xs (Suc k)) = Suc k" if "Suc k \<le> length ?xs"
  proof -
    from that remove_nth_parts(2)[OF i] have "k \<le> length ?rest" by simp
    with ih show ?thesis unfolding eq by simp
  qed
  from a b c show ?case by blast
qed

lemma random_sample_props:
  assumes "random_sample rs population k = Inr xs" and "distinct population"
  shows "set xs \<subseteq> set population" and "card (set xs) = k"
proof -
  from assms(1) have x: "xs = draw_distinct rs population k" "k \<le> length population"
    by (auto simp: random_sample_def split: if_splits)
  from draw_distinct_props[of rs population k] x assms(2)
  have "set xs \<subseteq> set population" "distinct xs" "length xs = k" by simp_all
  then show "set xs \<subseteq> set population" "card (set xs) = k"
    by (simp_all add: distinct_card)
qed

lemma imposter_options_cases:
  "imposter_options n = (if 7 \<le> n then [1, 2] else [1])"
  by (simp add: imposter_options_def ALLOW_2_IMPOSTERS_AT_def)

lemma choose_imposter_count_cases:
  "choose_imposter_count (imposter_options n) reply = Inr k \<Longrightarrow> k = 1 \<or> (k = 2 \<and> 7 \<le> n)"
  by (auto simp: choose_imposter_count_def imposter_options_cases
      split: option.splits sum.splits if_splits)

lemma start_commit_started:
  assumes "start_commit s words r_word r_imps k = (GameStarted, s')"
  shows "\<exists>w imps. random_choice r_word words = Inr w
     \<and> random_sample r_imps (dict_keys (players s)) k = Inr imps
     \<and> s' = s\<lparr>started := True, secret_word := Some w, imposters := set imps, round_no := 0,
              history := [], voting_open := False, votes := [], expecting_clue_from := None\<rparr>"
  using assms
  by (auto simp: start_commit_def Let_def split: sum.splits)

lemma cmd_startgame_started:
  assumes "cmd_startgame s author found msgs during words r_word r_imps = (GameStarted, s')"
  shows "is_host s author \<and> \<not> started s \<and> MIN_PLAYERS \<le> length (players s)
     \<and> (\<exists>k. choose_imposter_count (imposter_options (length (players s)))
               (wait_for_message author (channel_id s) msgs) = Inr k
            \<and> start_commit (run_events s during) words r_word r_imps k = (GameStarted, s'))"
  using assms
  by (auto simp: cmd_startgame_def start_check_def split: if_splits sum.splits)


lemma start_commit_fields:
  assumes "start_commit s words r_word r_imps k = (r, s')"
  shows "players s' = players s" and "join_order s' = join_order s" and "host_id s' = host_id s"
  using assms
  by (auto simp: start_commit_def Let_def split: sum.splits)

text \<open>
  What a start that succeeds leaves, for a session that was created by the command
  and has seen any interactions since: one or two imposters, all of them in the
  roster the game starts with; two only if the roster had 7 players when the command
  computed its options. The roster the game starts with is the one left by the
  interactions during the prompt.
\<close>

lemma imposters_after_start:
  assumes "s = run_events (create_lobby g c host lobby_msg) evs"
    and "cmd_startgame s author found msgs during words r_word r_imps = (GameStarted, s')"
  shows "(card (imposters s') = 1 \<or> card (imposters s') = 2)
    \<and> imposters s' \<subseteq> set (dict_keys (players s'))
    \<and> (card (imposters s') = 2 \<longrightarrow> ALLOW_2_IMPOSTERS_AT \<le> length (players s))
    \<and> players s' = players (run_events s during)"
proof -
  let ?t = "run_events s during"
  from cmd_startgame_started[OF assms(2)] obtain k where
    k: "choose_imposter_count (imposter_options (length (players s)))
          (wait_for_message author (channel_id s) msgs) = Inr k"
    and c: "start_commit ?t words r_word r_imps k = (GameStarted, s')" by blast
  from start_commit_started[OF c] obtain w :: string and imps where
    smp: "random_sample r_imps (dict_keys (players ?t)) k = Inr imps"
    and s': "imposters s' = set imps" by auto
  have "lobby_inv ?t"
    unfolding assms(1) by (intro run_events_lobby_inv create_lobby_inv)
  then have d: "distinct (dict_keys (players ?t))" by (simp add: lobby_inv_def)
  from random_sample_props[OF smp d] s' start_commit_fields(1)[OF c]
  have "imposters s' \<subseteq> set (dict_keys (players s'))" "card (imposters s') = k"
    "players s' = players ?t" by simp_all
  with choose_imposter_count_cases[OF k] show ?thesis
    by (auto simp: ALLOW_2_IMPOSTERS_AT_def)
qed

text \<open>A lobby of seven.\<close>

definition demo_lobby7 :: GameState where
  "demo_lobby7 = run_events (create_lobby 1 2 10 5)
     [Join 11 True, Join 12 True, Join 13 True, Join 14 True, Join 15 True, Join 16 True]"


lemma demo_lobby7_eq:
  "demo_lobby7 =
     \<lparr>guild_id = 1, channel_id = 2, host_id = 10, started = False,
      players = [(10, \<lparr>user_id = 10, alive = True\<rparr>), (11, \<lparr>user_id = 11, alive = True\<rparr>),
                 (12, \<lparr>user_id = 12, alive = True\<rparr>), (13, \<lparr>user_id = 13, alive = True\<rparr>),
                 (14, \<lparr>user_id = 14, alive = True\<rparr>), (15, \<lparr>user_id = 15, alive = True\<rparr>),
                 (16, \<lparr>user_id = 16, alive = True\<rparr>)],
      join_order = [10, 11, 12, 13, 14, 15, 16], secret_word = None, imposters = {},
      lobby_message_id = Some 5, round_no = 0, current_turn_index = 0,
      current_round_clues = [], history = [], expecting_clue_from = None,
      voting_open = False, votes = []\<rparr>"
  by (simp add: demo_lobby7_def run_events_def apply_event_def create_lobby_def new_GameState_def
      LobbyView_join_def refresh_lobby_embed_def dict_in_def dict_keys_def)

text \<open>A message of the host (user 10) in the channel of the session (channel 2).\<close>

definition host_says :: "string \<Rightarrow> Message" where
  "host_says txt = \<lparr>msg_author = 10, msg_channel = 2, msg_content = txt\<rparr>"

text \<open>
  Claim C5 fails in its last part. The options are computed from the roster the
  command finds; then the command waits up to 20 s for the host's reply, and the
  lobby stays open: Join and Leave are accepted, and the second critical section
  does not look at the size of the roster again. Here the host of a lobby of seven
  is offered 1 or 2, player 16 leaves, the host answers 2: the game starts with six
  players and two imposters.
\<close>

theorem two_imposters_among_six:
  "start_check demo_lobby7 10 True = (ChooseImposters [1, 2], demo_lobby7)
   \<and> length (players demo_lobby7) = 7
   \<and> fst (cmd_startgame demo_lobby7 10 True [host_says ''2''] [Leave 16 True] fallback_words 2 [0, 3])
       = GameStarted
   \<and> dict_keys (players (snd (cmd_startgame demo_lobby7 10 True [host_says ''2''] [Leave 16 True]
         fallback_words 2 [0, 3]))) = [10, 11, 12, 13, 14, 15]
   \<and> imposters (snd (cmd_startgame demo_lobby7 10 True [host_says ''2''] [Leave 16 True]
         fallback_words 2 [0, 3])) = {10, 14}"
  unfolding demo_lobby7_eq
  by (simp add: cmd_startgame_def start_check_def is_host_def MIN_PLAYERS_def
      imposter_options_def ALLOW_2_IMPOSTERS_AT_def choose_imposter_count_def
      run_events_def apply_event_def LobbyView_leave_def refresh_lobby_embed_def
      dict_in_def dict_keys_def dict_pop_def start_commit_def random_choice_def
      random_sample_def fallback_words_def Let_def numeral_2_eq_2 host_says_def
      wait_for_message_def chk_def py_isdigit_def is_digit_char_def is_decimal_def py_int_def
      digit_value_def py_strip_def is_space_def)


text \<open>A lobby of two.\<close>

definition demo_lobby2 :: GameState where
  "demo_lobby2 = run_events (create_lobby 1 2 10 5) [Join 11 True]"

lemma demo_lobby2_eq:
  "demo_lobby2 =
     \<lparr>guild_id = 1, channel_id = 2, host_id = 10, started = False,
      players = [(10, \<lparr>user_id = 10, alive = True\<rparr>), (11, \<lparr>user_id = 11, alive = True\<rparr>)],
      join_order = [10, 11], secret_word = None, imposters = {},
      lobby_message_id = Some 5, round_no = 0, current_turn_index = 0,
      current_round_clues = [], history = [], expecting_clue_from = None,
      voting_open = False, votes = []\<rparr>"
  by (simp add: demo_lobby2_def run_events_def apply_event_def create_lobby_def new_GameState_def
      LobbyView_join_def refresh_lobby_embed_def dict_in_def dict_keys_def)

text \<open>
  Claim C6, as stated, fails: the rejection for too few players calls
  \<open>refresh_lobby_embed\<close>, and when the lobby message is gone that clears
  \<open>lobby_message_id\<close>. Here the host of a lobby of two runs the command after the
  lobby message was deleted.
\<close>

theorem failed_start_clears_lobby_message:
  "length (players demo_lobby2) < MIN_PLAYERS
   \<and> cmd_startgame demo_lobby2 10 False [] [] fallback_words 0 [0] =
       (Rejected NotEnoughPlayers, demo_lobby2\<lparr>lobby_message_id := None\<rparr>)
   \<and> demo_lobby2\<lparr>lobby_message_id := None\<rparr> \<noteq> demo_lobby2"
  unfolding demo_lobby2_eq
  by (simp add: cmd_startgame_def start_check_def is_host_def MIN_PLAYERS_def
      refresh_lobby_embed_def)

text \<open>
  Claim C6, amended. A start command on a session with fewer than 3 players is
  rejected: as \<open>NotEnoughPlayers\<close> when the host issues it on a session not yet
  started, as \<open>NotHost\<close> or \<open>AlreadyStarted\<close> otherwise. The session is left as it
  was, except that the \<open>NotEnoughPlayers\<close> path refreshes the lobby message: only
  \<open>lobby_message_id\<close> can differ, and it does only when the message was not found, in
  which case it is cleared.
\<close>

theorem start_needs_three_players:
  assumes "length (players s) < MIN_PLAYERS"
  shows "cmd_startgame s author found msgs during words r_word r_imps =
      (Rejected (if \<not> is_host s author then NotHost
                 else if started s then AlreadyStarted else NotEnoughPlayers),
       if is_host s author \<and> \<not> started s then refresh_lobby_embed s found else s)
    \<and> (refresh_lobby_embed s found)\<lparr>lobby_message_id := lobby_message_id s\<rparr> = s
    \<and> (refresh_lobby_embed s found = s
        \<or> (\<not> found \<and> refresh_lobby_embed s found = s\<lparr>lobby_message_id := None\<rparr>))"
  using assms
  by (auto simp: cmd_startgame_def start_check_def refresh_lobby_embed_def split: option.splits)

theorem start_needs_three_players_witness:
  "length (players demo_lobby2) < MIN_PLAYERS
   \<and> cmd_startgame demo_lobby2 10 True [host_says ''1''] [Join 12 True] fallback_words 0 [0] =
       (Rejected NotEnoughPlayers, demo_lobby2)
   \<and> cmd_startgame demo_lobby2 11 True [host_says ''1''] [Join 12 True] fallback_words 0 [0] =
       (Rejected NotHost, demo_lobby2)"
proof -
  have l: "length (players demo_lobby2) < MIN_PLAYERS"
    unfolding demo_lobby2_eq by (simp add: MIN_PLAYERS_def)
  have h: "is_host demo_lobby2 10" "\<not> is_host demo_lobby2 11" "\<not> started demo_lobby2"
    "refresh_lobby_embed demo_lobby2 True = demo_lobby2"
    unfolding demo_lobby2_eq by (simp_all add: is_host_def refresh_lobby_embed_def)
  from start_needs_three_players[OF l, of 10 True "[host_says ''1'']" "[Join 12 True]" fallback_words 0 "[0]"]
    start_needs_three_players[OF l, of 11 True "[host_says ''1'']" "[Join 12 True]" fallback_words 0 "[0]"]
    l h
  show ?thesis by simp
qed

lemma load_words_nonempty: "load_words wordfile \<noteq> []"
proof -
  have d: "ws \<noteq> [] \<Longrightarrow> dedup [] ws \<noteq> []" for ws by (cases ws) simp_all
  show ?thesis
    by (auto simp: load_words_def Let_def fallback_words_def intro!: d split: option.splits)
qed

lemma create_lobby_fields:
  "host_id (create_lobby g c host lobby_msg) = host"
  "\<not> started (create_lobby g c host lobby_msg)"
  by (simp_all add: create_lobby_def new_GameState_def)

text \<open>
  What holds of the default. In a session created by the command, with at least 3
  players when the host runs the command again: if the prompt times out, or the
  reply it takes is a decimal number that is not among the options offered, the
  command starts the game, whatever the players do during the prompt and whatever
  the draws are, and the imposter set has exactly one member, a player of the game.
  (\<open>WORDS\<close> is what \<open>load_words\<close> returned, so there is a word to draw.)
\<close>

lemma decimal_reply_defaults_to_one:
  assumes "s = run_events (create_lobby g c host lobby_msg) evs"
    and "MIN_PLAYERS \<le> length (players s)"
    and "wait_for_message host (channel_id s) msgs = None
         \<or> (\<exists>m n. wait_for_message host (channel_id s) msgs = Some m
                \<and> py_int (py_strip (msg_content m)) = Inr n
                \<and> n \<notin> set (imposter_options (length (players s))))"
  shows "\<exists>s'. cmd_startgame s host found msgs during (load_words wordfile) r_word r_imps =
           (GameStarted, s')
     \<and> started s' \<and> card (imposters s') = 1 \<and> imposters s' \<subseteq> set (dict_keys (players s'))"
proof -
  let ?t = "run_events s during"
  let ?opts = "imposter_options (length (players s))"
  have hs: "is_host s host" "\<not> started s"
    unfolding assms(1)
    by (simp_all add: is_host_def run_events_host run_events_fields create_lobby_fields)
  have k: "choose_imposter_count ?opts (wait_for_message host (channel_id s) msgs) = Inr 1"
    using assms(3) by (auto simp: choose_imposter_count_def imposter_options_cases)
  have chk: "start_check s host found = (ChooseImposters ?opts, s)"
    using hs assms(2) by (simp add: start_check_def)
  have inv: "lobby_inv ?t"
    unfolding assms(1) by (intro run_events_lobby_inv create_lobby_inv)
  then have ne: "dict_keys (players ?t) \<noteq> []" and d: "distinct (dict_keys (players ?t))"
    by (auto simp: lobby_inv_def)
  obtain w where w: "random_choice r_word (load_words wordfile) = Inr w"
    using load_words_nonempty[of wordfile] by (simp add: random_choice_def)
  from ne have "\<not> length (dict_keys (players ?t)) < 1" by (cases "dict_keys (players ?t)") simp_all
  then obtain imps where i: "random_sample r_imps (dict_keys (players ?t)) 1 = Inr imps"
    by (simp add: random_sample_def)
  let ?s' = "?t\<lparr>started := True, secret_word := Some w, imposters := set imps, round_no := 0,
              history := [], voting_open := False, votes := [], expecting_clue_from := None\<rparr>"
  have c: "cmd_startgame s host found msgs during (load_words wordfile) r_word r_imps =
      (GameStarted, ?s')"
    using chk k w i by (simp add: cmd_startgame_def start_commit_def Let_def)
  from random_sample_props[OF i d]
  have "card (imposters ?s') = 1" "imposters ?s' \<subseteq> set (dict_keys (players ?s'))" by simp_all
  with c show ?thesis by (intro exI[of _ ?s']) simp
qed

text \<open>A lobby of three.\<close>

definition demo_lobby3 :: GameState where
  "demo_lobby3 = run_events (create_lobby 1 2 10 5) [Join 11 True, Join 12 True]"

lemma demo_lobby3_eq:
  "demo_lobby3 =
     \<lparr>guild_id = 1, channel_id = 2, host_id = 10, started = False,
      players = [(10, \<lparr>user_id = 10, alive = True\<rparr>), (11, \<lparr>user_id = 11, alive = True\<rparr>),
                 (12, \<lparr>user_id = 12, alive = True\<rparr>)],
      join_order = [10, 11, 12], secret_word = None, imposters = {},
      lobby_message_id = Some 5, round_no = 0, current_turn_index = 0,
      current_round_clues = [], history = [], expecting_clue_from = None,
      voting_open = False, votes = []\<rparr>"
  by (simp add: demo_lobby3_def run_events_def apply_event_def create_lobby_def new_GameState_def
      LobbyView_join_def refresh_lobby_embed_def dict_in_def dict_keys_def)

text \<open>The host lets the prompt pass, or answers 5: the game starts with one imposter.\<close>

lemma demo_default_start:
  "fst (cmd_startgame demo_lobby3 10 True [] [] fallback_words 0 [1]) = GameStarted"
  "imposters (snd (cmd_startgame demo_lobby3 10 True [] [] fallback_words 0 [1])) = {11}"
  "fst (cmd_startgame demo_lobby3 10 True [host_says ''5''] [] fallback_words 0 [1]) = GameStarted"
  "imposters (snd (cmd_startgame demo_lobby3 10 True [host_says ''5''] [] fallback_words 0 [1]))
     = {11}"
  unfolding demo_lobby3_eq
  by (simp_all add: cmd_startgame_def start_check_def is_host_def MIN_PLAYERS_def
      imposter_options_def ALLOW_2_IMPOSTERS_AT_def choose_imposter_count_def
      run_events_def start_commit_def random_choice_def random_sample_def fallback_words_def
      dict_keys_def Let_def host_says_def wait_for_message_def chk_def py_isdigit_def
      is_digit_char_def is_decimal_def py_int_def digit_value_def py_strip_def is_space_def)

text \<open>
  Claim C10 fails for a reply that \<open>isdigit()\<close> accepts and \<open>int()\<close> does not. The
  host of a lobby of three, offered the one option 1, answers with the superscript
  two (U+00B2). The message passes \<open>chk\<close>, so \<open>bot.wait_for\<close> returns it;
  \<open>int(msg.content.strip())\<close> raises \<open>ValueError\<close>, which nothing catches: the
  command ends there and the session is still an open lobby, not started, with no
  imposter.
\<close>

theorem superscript_reply_aborts_start:
  "start_check demo_lobby3 10 True = (ChooseImposters [1], demo_lobby3)
   \<and> wait_for_message 10 (channel_id demo_lobby3) [host_says [CHR 0xB2]]
       = Some (host_says [CHR 0xB2])
   \<and> py_int (py_strip (msg_content (host_says [CHR 0xB2]))) = Inl ValueError
   \<and> cmd_startgame demo_lobby3 10 True [host_says [CHR 0xB2]] [] fallback_words 0 [1]
       = (Raised ValueError, demo_lobby3)
   \<and> started demo_lobby3 = False
   \<and> imposters demo_lobby3 = {}"
  unfolding demo_lobby3_eq
  by (simp add: cmd_startgame_def start_check_def is_host_def MIN_PLAYERS_def
      imposter_options_def ALLOW_2_IMPOSTERS_AT_def choose_imposter_count_def
      run_events_def host_says_def wait_for_message_def chk_def py_isdigit_def
      is_digit_char_def is_decimal_def py_int_def py_strip_def is_space_def)

end
